theory Spec2Isabelle
  imports Main "HOL-Library.Sublist" "HOL-Library.Word"
begin

section \<open>Strings\<close>

text \<open>
  A JavaScript string is a sequence of UTF-16 code units. The model covers the code units
  U+0000 to U+00FF: a \<^typ>\<open>char\<close> is the code unit with that number, so a \<^typ>\<open>string\<close>
  is a JavaScript string of Latin-1 characters and \<^const>\<open>length\<close> is its \<open>.length\<close>.
\<close>

definition code :: "char \<Rightarrow> nat" where
  "code c = of_char c"

text \<open>\<open>String.prototype.toLowerCase\<close>: A to Z, and the capital letters U+00C0 to U+00DE
  (U+00D7, the multiplication sign, is not a letter), move up by 32.\<close>

definition toLowerCase_char :: "char \<Rightarrow> char" where
  "toLowerCase_char c =
     (let n = code c in
      if (65 \<le> n \<and> n \<le> 90) \<or> (192 \<le> n \<and> n \<le> 222 \<and> n \<noteq> 215)
      then char_of (n + 32) else c)"

definition toLowerCase :: "string \<Rightarrow> string" where
  "toLowerCase s = map toLowerCase_char s"

text \<open>The class \<open>\s\<close> (and what \<open>trim\<close> strips): tab, line feed, vertical tab, form feed,
  carriage return, space and the no-break space U+00A0.\<close>

definition isSpace :: "char \<Rightarrow> bool" where
  "isSpace c = (let n = code c in (9 \<le> n \<and> n \<le> 13) \<or> n = 32 \<or> n = 160)"

text \<open>The class \<open>\w\<close>, which decides \<open>\b\<close>: \<open>[A-Za-z0-9_]\<close>.\<close>

definition isWordChar :: "char \<Rightarrow> bool" where
  "isWordChar c =
     (let n = code c in
      (97 \<le> n \<and> n \<le> 122) \<or> (65 \<le> n \<and> n \<le> 90) \<or> (48 \<le> n \<and> n \<le> 57) \<or> n = 95)"

text \<open>\<open>String.prototype.includes\<close>: some index at which the argument starts.\<close>

definition includes_str :: "string \<Rightarrow> string \<Rightarrow> bool" where
  "includes_str t k = list_ex (\<lambda>i. take (length k) (drop i t) = k) [0..<Suc (length t)]"

section \<open>Regular expressions\<close>

text \<open>
  The regular expressions of \<open>keywordExists\<close> are built from three things: the assertion
  \<open>\b\<close>, a character escaped by a backslash, and a character standing for itself. A
  pattern is parsed to a list of these; anything else a pattern can hold (classes, groups,
  quantifiers, other escapes) is outside the fragment and reported as \<open>Unsupported\<close>; a
  backslash that ends the pattern is the \<open>SyntaxError\<close> of \<open>new RegExp\<close>.
\<close>

datatype error = SyntaxError | Unsupported | PdfError

datatype atom = WordBoundary | Literal char

definition backslash :: char where
  "backslash = CHR 0x5C"

text \<open>The syntax characters of a pattern: \<open>^ $ \ . * + ? ( ) [ ] { } |\<close>.\<close>

definition syntaxChars :: string where
  "syntaxChars = ''^$.*+?()[]{}|'' @ [backslash]"

definition isSyntaxChar :: "char \<Rightarrow> bool" where
  "isSyntaxChar c = (c \<in> set syntaxChars)"

fun RegExp_new :: "string \<Rightarrow> error + atom list" where
  "RegExp_new [] = Inr []"
| "RegExp_new [c] =
     (if c = backslash then Inl SyntaxError
      else if isSyntaxChar c then Inl Unsupported
      else Inr [Literal c])"
| "RegExp_new (c # d # ds) =
     (if c = backslash then
        (if d = CHR ''b'' then map_sum id (Cons WordBoundary) (RegExp_new ds)
         else if isSyntaxChar d then map_sum id (Cons (Literal d)) (RegExp_new ds)
         else Inl Unsupported)
      else if isSyntaxChar c then Inl Unsupported
      else map_sum id (Cons (Literal c)) (RegExp_new (d # ds)))"

text \<open>
  Matching with the flag \<open>i\<close> and without the flag \<open>u\<close> compares canonical code units:
  the upper-case mapping of the character when that is one code unit, and not an ASCII one
  for a character that is not ASCII. The micro sign and y with diaeresis have their
  capitals outside Latin-1 (U+039C, U+0178); the capital of the sharp s is two letters, so
  it stays.
\<close>

definition canonicalize :: "char \<Rightarrow> nat" where
  "canonicalize c =
     (let n = code c in
      if 97 \<le> n \<and> n \<le> 122 then n - 32
      else if 224 \<le> n \<and> n \<le> 254 \<and> n \<noteq> 247 then n - 32
      else if n = 255 then 376
      else if n = 181 then 924
      else n)"

text \<open>\<open>\b\<close> at index \<open>e\<close>: exactly one of the characters before and after \<open>e\<close> is a word
  character, where the ends of the input count as not a word character.\<close>

definition isWordCharAt :: "string \<Rightarrow> int \<Rightarrow> bool" where
  "isWordCharAt s e = (if e = -1 \<or> e = int (length s) then False else isWordChar (s ! nat e))"

definition isWordBoundary :: "string \<Rightarrow> nat \<Rightarrow> bool" where
  "isWordBoundary s e = (isWordCharAt s (int e - 1) \<noteq> isWordCharAt s (int e))"

fun matchAt :: "atom list \<Rightarrow> string \<Rightarrow> nat \<Rightarrow> bool" where
  "matchAt [] s i = True"
| "matchAt (WordBoundary # as) s i = (isWordBoundary s i \<and> matchAt as s i)"
| "matchAt (Literal c # as) s i =
     (i < length s \<and> canonicalize (s ! i) = canonicalize c \<and> matchAt as s (Suc i))"

text \<open>\<open>RegExp.prototype.test\<close> without the flags \<open>g\<close> and \<open>y\<close>: a match starting at some
  index from 0 to the length of the input.\<close>

definition test :: "atom list \<Rightarrow> string \<Rightarrow> bool" where
  "test re s = list_ex (matchAt re s) [0..<Suc (length s)]"

section \<open>The keyword scorer\<close>

definition JOB_KEYWORDS :: "string list" where
  "JOB_KEYWORDS =
   [''java'', ''javascript'', ''typescript'', ''python'', ''c++'', ''c#'', ''ruby'', ''php'',
    ''swift'', ''kotlin'', ''go'', ''rust'', ''scala'',
    ''html'', ''css'', ''react'', ''angular'', ''vue'', ''node.js'', ''nodejs'', ''express'',
    ''next.js'', ''nextjs'', ''tailwind'',
    ''sql'', ''mysql'', ''postgresql'', ''mongodb'', ''redis'', ''oracle'', ''sqlite'',
    ''dynamodb'', ''firebase'',
    ''aws'', ''azure'', ''gcp'', ''docker'', ''kubernetes'', ''jenkins'', ''ci/cd'',
    ''terraform'', ''ansible'',
    ''japanese'', ''jlpt'', ''n1'', ''n2'', ''n3'', ''n4'', ''n5'', ''english'', ''mandarin'',
    ''korean'',
    ''communication'', ''leadership'', ''teamwork'', ''problem-solving'', ''analytical'',
    ''project management'',
    ''bachelor'', ''master'', ''phd'', ''doctorate'', ''degree'', ''university'', ''college'',
    ''certification'',
    ''senior'', ''junior'', ''lead'', ''manager'', ''architect'', ''developer'', ''engineer'',
    ''analyst'', ''consultant'',
    ''api'', ''rest'', ''graphql'', ''microservices'', ''agile'', ''scrum'', ''git'', ''linux'',
    ''machine learning'', ''ai'', ''data science'']"

text \<open>The members of the class \<open>[a-z0-9\s]\<close>.\<close>

definition plainChars :: string where
  "plainChars =
     ''abcdefghijklmnopqrstuvwxyz0123456789'' @
     [CHR 0x09, CHR 0x0A, CHR 0x0B, CHR 0x0C, CHR 0x0D, CHR 0x20, CHR 0xA0]"

text \<open>One character against \<open>[^a-z0-9\s]\<close> with the flag \<open>i\<close>: no member of the class has
  the canonical code unit of the character.\<close>

definition isSymbol :: "char \<Rightarrow> bool" where
  "isSymbol c = (\<not> list_ex (\<lambda>a. canonicalize a = canonicalize c) plainChars)"

text \<open>\<open>k.replace(/[.*+?^${}()|[\]\\]/g, "\\$&")\<close>: a backslash before each of the fourteen
  characters.\<close>

definition escapedChars :: string where
  "escapedChars = ''.*+?^${}()|[]'' @ [backslash]"

definition escape :: "string \<Rightarrow> string" where
  "escape k = concat (map (\<lambda>c. if c \<in> set escapedChars then [backslash, c] else [c]) k)"

definition keywordExists :: "string \<Rightarrow> string \<Rightarrow> error + bool" where
  "keywordExists text keyword =
     (let t = toLowerCase text; k = toLowerCase keyword in
      if list_ex isSymbol k then Inr (includes_str t k)
      else
        (case RegExp_new ([backslash, CHR ''b''] @ escape k @ [backslash, CHR ''b'']) of
           Inl e \<Rightarrow> Inl e
         | Inr re \<Rightarrow> Inr (test re t)))"

text \<open>\<open>[...new Set(xs)]\<close>: the elements of \<open>xs\<close> in the order of their first occurrence.\<close>

fun setAdd :: "'a list \<Rightarrow> 'a \<Rightarrow> 'a list" where
  "setAdd s x = (if x \<in> set s then s else s @ [x])"

definition newSet :: "'a list \<Rightarrow> 'a list" where
  "newSet xs = foldl setAdd [] xs"

record match_result =
  score :: int
  matchedKeywords :: "string list"

text \<open>The loop over \<open>allKeywords\<close>, with the array \<open>matchedKeywords\<close> built so far.\<close>

fun scanKeywords :: "string \<Rightarrow> string list \<Rightarrow> string list \<Rightarrow> error + string list" where
  "scanKeywords lowerText [] matched = Inr matched"
| "scanKeywords lowerText (keyword # rest) matched =
     (case keywordExists lowerText keyword of
        Inl e \<Rightarrow> Inl e
      | Inr b \<Rightarrow> scanKeywords lowerText rest (if b then matched @ [keyword] else matched))"

definition calculateKeywordMatch :: "string \<Rightarrow> string list \<Rightarrow> error + match_result" where
  "calculateKeywordMatch text customKeywords =
     (let lowerText = toLowerCase text;
          allKeywords = newSet (JOB_KEYWORDS @ map toLowerCase customKeywords)
      in case scanKeywords lowerText allKeywords [] of
           Inl e \<Rightarrow> Inl e
         | Inr matched \<Rightarrow>
             Inr \<lparr>score = min 100 (int (length matched) * 10), matchedKeywords = matched\<rparr>)"

section \<open>The text extractors\<close>

text \<open>
  The PDF library is not part of the repository. What the extractors see of it: loading a
  buffer gives a document or fails; a document has a page count and gives each page or
  fails; the text content of a page is the list of the strings of its items, or a failure.
\<close>

type_synonym bytes = "8 word list"

type_synonym text_content = "error + string list"

record pdf =
  numPages :: nat
  getPage :: "nat \<Rightarrow> error + text_content"

text \<open>\<open>Array.prototype.join\<close>.\<close>

fun join :: "string \<Rightarrow> string list \<Rightarrow> string" where
  "join sep [] = []"
| "join sep [x] = x"
| "join sep (x # y # ys) = x @ sep @ join sep (y # ys)"

definition newline :: char where
  "newline = CHR 0x0A"

text \<open>The loop over the pages, from \<open>pageNum\<close> to \<open>numPages\<close>, with the text read so far.\<close>

function readPages :: "pdf \<Rightarrow> nat \<Rightarrow> string \<Rightarrow> error + string" where
  "readPages doc pageNum fullText =
     (if pageNum \<le> numPages doc then
        (case getPage doc pageNum of
           Inl e \<Rightarrow> Inl e
         | Inr content \<Rightarrow>
             (case content of
                Inl e \<Rightarrow> Inl e
              | Inr strings \<Rightarrow>
                  readPages doc (Suc pageNum) (fullText @ join '' '' strings @ [newline])))
      else Inr fullText)"
  by pat_completeness auto
termination
  by (relation "measure (\<lambda>(doc, pageNum, fullText). Suc (numPages doc) - pageNum)") auto

text \<open>\<open>replace(/\s+/g, " ")\<close>: every maximal run of white space becomes one space.\<close>

function replaceSpaces :: "string \<Rightarrow> string" where
  "replaceSpaces [] = []"
| "replaceSpaces (c # cs) =
     (if isSpace c then CHR '' '' # replaceSpaces (dropWhile isSpace cs)
      else c # replaceSpaces cs)"
  by pat_completeness auto
termination
  by (relation "measure length") (auto simp: length_dropWhile_le less_Suc_eq_le)

definition trim :: "string \<Rightarrow> string" where
  "trim s = rev (dropWhile isSpace (rev (dropWhile isSpace s)))"

text \<open>The statements both extractors run: load, read every page, normalise.\<close>

definition extractBody :: "(bytes \<Rightarrow> error + pdf) \<Rightarrow> bytes \<Rightarrow> error + string" where
  "extractBody getDocument buffer =
     (case getDocument buffer of
        Inl e \<Rightarrow> Inl e
      | Inr doc \<Rightarrow>
          (case readPages doc 1 [] of
             Inl e \<Rightarrow> Inl e
           | Inr fullText \<Rightarrow> Inr (trim (replaceSpaces fullText))))"

definition try_catch :: "error + 'a \<Rightarrow> (error \<Rightarrow> error + 'a) \<Rightarrow> error + 'a" where
  "try_catch body handle = (case body of Inl e \<Rightarrow> handle e | Inr v \<Rightarrow> Inr v)"

text \<open>The serverless extractor: the body inside \<open>try\<close>, and \<open>catch\<close> returning \<open>""\<close>.\<close>

definition extractTextFromPDF :: "(bytes \<Rightarrow> error + pdf) \<Rightarrow> bytes \<Rightarrow> error + string" where
  "extractTextFromPDF getDocument pdfBuffer =
     try_catch (extractBody getDocument pdfBuffer) (\<lambda>err. Inr [])"

text \<open>The frontend extractor: the same statements with no \<open>try\<close> around them.\<close>

definition extractPdfTextFromBlob :: "(bytes \<Rightarrow> error + pdf) \<Rightarrow> bytes \<Rightarrow> error + string" where
  "extractPdfTextFromBlob getDocument blob = extractBody getDocument blob"

section \<open>The request handler\<close>

record request_body =
  applicantId :: "string option"
  cvFilePath :: "string option"
  customKeywords :: "string list option"

record request =
  req_method :: string
  json :: "error + request_body"

record applicant_update =
  cv_extracted_text :: string
  matched_keywords :: "string list"
  keyword_match_score :: int

text \<open>The services the handler calls: the storage bucket, the PDF library and the
  \<open>applicants\<close> table, whose \<open>update\<close> answers with an error or with none.\<close>

record backend =
  download :: "string \<Rightarrow> error + bytes"
  getDocument :: "bytes \<Rightarrow> error + pdf"
  update :: "string \<Rightarrow> applicant_update \<Rightarrow> error option"

datatype response_body =
  NoBody
| ErrorBody string
| SuccessBody nat int "string list"

record response =
  status :: nat
  body :: response_body

text \<open>\<open>!x\<close> for a string that may be missing: missing or empty.\<close>

fun falsy :: "string option \<Rightarrow> bool" where
  "falsy None = True"
| "falsy (Some s) = (s = [])"

text \<open>The handler returns its response and the update it sent to the \<open>applicants\<close> table,
  as the pair of the row's id and the new fields, when it sent one. An exception thrown in
  the body is caught by the outer \<open>catch\<close>, which answers 500. After the test of the two
  fields both are present, so the last case of the match on them is never taken.\<close>

definition internalError :: "response \<times> (string \<times> applicant_update) option" where
  "internalError = (\<lparr>status = 500, body = ErrorBody ''Internal server error''\<rparr>, None)"

definition missingField :: "response \<times> (string \<times> applicant_update) option" where
  "missingField =
     (\<lparr>status = 400, body = ErrorBody ''Missing applicantId or cvFilePath''\<rparr>, None)"

definition handler :: "backend \<Rightarrow> request \<Rightarrow> response \<times> (string \<times> applicant_update) option" where
  "handler be req =
     (if req_method req = ''OPTIONS'' then (\<lparr>status = 200, body = NoBody\<rparr>, None)
      else
        (case json req of
           Inl e \<Rightarrow> internalError
         | Inr b \<Rightarrow>
             if falsy (applicantId b) \<or> falsy (cvFilePath b) then missingField
             else
               (case (applicantId b, cvFilePath b) of
                  (Some aid, Some path) \<Rightarrow>
                    (case download be path of
                       Inl downloadError \<Rightarrow>
                         (\<lparr>status = 500, body = ErrorBody ''Failed to download CV''\<rparr>, None)
                     | Inr pdfBuffer \<Rightarrow>
                         (case extractTextFromPDF (getDocument be) pdfBuffer of
                            Inl e \<Rightarrow> internalError
                          | Inr extractedText \<Rightarrow>
                              (case calculateKeywordMatch extractedText
                                      (case customKeywords b of None \<Rightarrow> [] | Some ks \<Rightarrow> ks) of
                                 Inl e \<Rightarrow> internalError
                               | Inr r \<Rightarrow>
                                   (let row = \<lparr>cv_extracted_text = take 50000 extractedText,
                                               matched_keywords = matchedKeywords r,
                                               keyword_match_score = score r\<rparr>
                                    in case update be aid row of
                                         Some updateError \<Rightarrow>
                                           (\<lparr>status = 500,
                                             body = ErrorBody ''Failed to update applicant''\<rparr>,
                                            Some (aid, row))
                                       | None \<Rightarrow>
                                           (\<lparr>status = 200,
                                             body = SuccessBody (length extractedText) (score r)
                                                      (matchedKeywords r)\<rparr>,
                                            Some (aid, row))))))
                | _ \<Rightarrow> missingField)))"

section \<open>Specification predicates\<close>

text \<open>
  The words of the specification, to be compared with the code. A term occurs in a text
  as a whole token bounded by word boundaries when the text splits into a part before the
  term, the term and a part after it, with a word boundary at each of the two cuts: exactly
  one of the two characters next to a cut is a word character, and a missing character is
  not one.
\<close>

definition startsWithWord :: "string \<Rightarrow> bool" where
  "startsWithWord s = (case s of [] \<Rightarrow> False | c # cs \<Rightarrow> isWordChar c)"

definition endsWithWord :: "string \<Rightarrow> bool" where
  "endsWithWord s = (s \<noteq> [] \<and> isWordChar (last s))"

definition boundaryBetween :: "string \<Rightarrow> string \<Rightarrow> bool" where
  "boundaryBetween l r = (endsWithWord l \<noteq> startsWithWord r)"

definition wholeToken :: "string \<Rightarrow> string \<Rightarrow> bool" where
  "wholeToken t k =
     (\<exists>pre post. t = pre @ k @ post \<and> boundaryBetween pre (k @ post)
        \<and> boundaryBetween (pre @ k) post)"

text \<open>The plain terms of the specification: every character in \<open>[a-z0-9 ]\<close>.\<close>

definition specPlainChars :: string where
  "specPlainChars = ''abcdefghijklmnopqrstuvwxyz0123456789 ''"

text \<open>What \<open>keywordExists\<close> answers, as a truth value.\<close>

definition keywordMatches :: "string \<Rightarrow> string \<Rightarrow> bool" where
  "keywordMatches text keyword =
     (let t = toLowerCase text; k = toLowerCase keyword in
      if list_ex isSymbol k then sublist k t else wholeToken t k)"

section \<open>Scanning functions for evaluation\<close>

text \<open>
  \<^const>\<open>sublist\<close> and \<^const>\<open>wholeToken\<close> quantify over the splits of the text. The
  functions below decide them by one pass over the text, which keeps the character before
  the position it looks at.
\<close>

fun startsWith :: "string \<Rightarrow> string \<Rightarrow> bool" where
  "startsWith s [] = True"
| "startsWith [] (k # ks) = False"
| "startsWith (c # cs) (k # ks) = (if c = k then startsWith cs ks else False)"

fun includesScan :: "string \<Rightarrow> string \<Rightarrow> bool" where
  "includesScan [] k = startsWith [] k"
| "includesScan (c # cs) k = (if startsWith (c # cs) k then True else includesScan cs k)"

fun wordBefore :: "char option \<Rightarrow> bool" where
  "wordBefore None = False"
| "wordBefore (Some c) = isWordChar c"

definition tokenHere :: "char option \<Rightarrow> string \<Rightarrow> string \<Rightarrow> bool" where
  "tokenHere prev rest k =
     (if startsWith rest k then
        (wordBefore prev \<noteq> startsWithWord rest) \<and>
        ((if k = [] then wordBefore prev else isWordChar (last k))
           \<noteq> startsWithWord (drop (length k) rest))
      else False)"

fun tokenScan :: "char option \<Rightarrow> string \<Rightarrow> string \<Rightarrow> bool" where
  "tokenScan prev [] k = tokenHere prev [] k"
| "tokenScan prev (c # cs) k =
     (if tokenHere prev (c # cs) k then True else tokenScan (Some c) cs k)"

definition keywordScan :: "string \<Rightarrow> string \<Rightarrow> bool" where
  "keywordScan t k = (if list_ex isSymbol k then includesScan t k else tokenScan None t k)"

text \<open>The code unit of a lower-cased character, from its canonical code unit.\<close>

definition uncanonical :: "nat \<Rightarrow> nat" where
  "uncanonical n =
     (if (65 \<le> n \<and> n \<le> 90) \<or> (192 \<le> n \<and> n \<le> 222 \<and> n \<noteq> 215) then n + 32
      else if n = 376 then 255 else if n = 924 then 181 else n)"

section \<open>Documents that cannot be read\<close>

text \<open>
  The specification's cases for the extractors. A document cannot be parsed when loading
  it fails or when one of its pages, from 1 to the page count, fails to give its text. It
  has no text layer when it loads and every page gives an empty list of items.
\<close>

definition pageFails :: "pdf \<Rightarrow> nat \<Rightarrow> bool" where
  "pageFails doc p =
     (case getPage doc p of
        Inl e \<Rightarrow> True
      | Inr content \<Rightarrow> (case content of Inl e \<Rightarrow> True | Inr strings \<Rightarrow> False))"

definition unparseable :: "(bytes \<Rightarrow> error + pdf) \<Rightarrow> bytes \<Rightarrow> bool" where
  "unparseable getDoc buffer =
     (case getDoc buffer of
        Inl e \<Rightarrow> True
      | Inr doc \<Rightarrow> list_ex (pageFails doc) [1..<Suc (numPages doc)])"

definition noTextLayer :: "(bytes \<Rightarrow> error + pdf) \<Rightarrow> bytes \<Rightarrow> bool" where
  "noTextLayer getDoc buffer =
     (case getDoc buffer of
        Inl e \<Rightarrow> False
      | Inr doc \<Rightarrow> list_all (\<lambda>p. getPage doc p = Inr (Inr [])) [1..<Suc (numPages doc)])"

text \<open>A library that rejects every buffer, and one that reads every buffer as a document
  of two pages without text.\<close>

definition corruptedDocument :: "bytes \<Rightarrow> error + pdf" where
  "corruptedDocument buffer = Inl PdfError"

definition blankPage :: "nat \<Rightarrow> error + text_content" where
  "blankPage p = Inr (Inr [])"

definition scannedDocument :: "bytes \<Rightarrow> error + pdf" where
  "scannedDocument buffer = Inr \<lparr>numPages = 2, getPage = blankPage\<rparr>"

section \<open>Sample inputs\<close>

text \<open>The scenario of the specification, and the two texts of its matching examples.\<close>

definition scenarioText :: string where
  "scenarioText = ''Senior Python developer with AWS and Docker experience, JLPT N2 certified''"




text \<open>A request for the handler, with services that answer: every path downloads, every
  buffer is a document of one page with two text items, every update succeeds.\<close>

definition samplePage :: "nat \<Rightarrow> error + text_content" where
  "samplePage p = Inr (Inr [''Go'', ''developer''])"

definition sampleDocument :: "bytes \<Rightarrow> error + pdf" where
  "sampleDocument buffer = Inr \<lparr>numPages = 1, getPage = samplePage\<rparr>"

definition sampleDownload :: "string \<Rightarrow> error + bytes" where
  "sampleDownload path = Inr [1, 2, 3]"

definition sampleUpdate :: "string \<Rightarrow> applicant_update \<Rightarrow> error option" where
  "sampleUpdate aid row = None"

definition sampleBackend :: backend where
  "sampleBackend =
     \<lparr>download = sampleDownload, getDocument = sampleDocument, update = sampleUpdate\<rparr>"

definition sampleRequest :: request where
  "sampleRequest =
     \<lparr>req_method = ''POST'',
      json = Inr \<lparr>applicantId = Some ''a1'', cvFilePath = Some ''cv.pdf'',
                  customKeywords = None\<rparr>\<rparr>"

section \<open>Tokens of letters and digits\<close>

text \<open>
  The words of the specification read without the regular expression: a token is a run of
  letters and digits, letters with an accent included, and a term occurs as a whole token
  when no token runs across the start or the end of the occurrence.
\<close>

definition isLetterOrDigit :: "char \<Rightarrow> bool" where
  "isLetterOrDigit c =
     (let n = code c in
      (48 \<le> n \<and> n \<le> 57) \<or> (65 \<le> n \<and> n \<le> 90) \<or> (97 \<le> n \<and> n \<le> 122)
      \<or> n = 170 \<or> n = 181 \<or> n = 186
      \<or> (192 \<le> n \<and> n \<le> 214) \<or> (216 \<le> n \<and> n \<le> 246) \<or> (248 \<le> n \<and> n \<le> 255))"

definition straddles :: "string \<Rightarrow> string \<Rightarrow> bool" where
  "straddles l r = (l \<noteq> [] \<and> isLetterOrDigit (last l) \<and> r \<noteq> [] \<and> isLetterOrDigit (hd r))"

definition specWholeToken :: "string \<Rightarrow> string \<Rightarrow> bool" where
  "specWholeToken t k =
     (\<exists>pre post. t = pre @ k @ post \<and> \<not> straddles pre (k @ post)
        \<and> \<not> straddles (pre @ k) post)"

text \<open>The word \<open>ecole\<close> with its acute accent on the first letter, U+00E9.\<close>

definition ecoleText :: string where
  "ecoleText = CHR 0xE9 # ''cole''"

definition eAcute :: string where
  "eAcute = [CHR 0xE9]"

text \<open>A text with ten built-in keywords.\<close>

definition tenKeywords :: "string list" where
  "tenKeywords =
     [''java'', ''python'', ''ruby'', ''php'', ''swift'', ''kotlin'', ''go'', ''rust'', ''scala'',
      ''html'']"

definition tenText :: string where
  "tenText = ''java python ruby php swift kotlin go rust scala html''"

text \<open>Services that read every buffer as a document of one page, whose one text item is
  the letter a 60000 times.\<close>

definition longItem :: string where
  "longItem = replicate 60000 (CHR ''a'')"

definition longPage :: "nat \<Rightarrow> error + text_content" where
  "longPage p = Inr (Inr [longItem])"

definition longDocument :: "bytes \<Rightarrow> error + pdf" where
  "longDocument buffer = Inr \<lparr>numPages = 1, getPage = longPage\<rparr>"

definition longBackend :: backend where
  "longBackend =
     \<lparr>download = sampleDownload, getDocument = longDocument, update = sampleUpdate\<rparr>"

section \<open>Characters\<close>

lemma code_lt: "code c < 256"
  by (simp add: code_def)

lemma code_inj: "(code a = code b) = (a = b)"
  by (simp add: code_def)

lemma code_char_of: "n < 256 \<Longrightarrow> code (char_of n) = n"
  by (simp add: code_def)

lemma code_toLowerCase_char:
  "code (toLowerCase_char c) =
     (if (65 \<le> code c \<and> code c \<le> 90) \<or> (192 \<le> code c \<and> code c \<le> 222 \<and> code c \<noteq> 215)
      then code c + 32 else code c)"
  using code_lt [of c] by (auto simp: toLowerCase_char_def Let_def code_char_of)

lemma toLowerCase_char_idem: "toLowerCase_char (toLowerCase_char c) = toLowerCase_char c"
  by (rule iffD1 [OF code_inj]) (auto simp: code_toLowerCase_char)

lemma isWordChar_toLowerCase_char: "isWordChar (toLowerCase_char c) = isWordChar c"
  by (auto simp: isWordChar_def Let_def code_toLowerCase_char)

lemma code_toLowerCase_char_range:
  "\<not> (65 \<le> code (toLowerCase_char c) \<and> code (toLowerCase_char c) \<le> 90)"
  "\<not> (192 \<le> code (toLowerCase_char c) \<and> code (toLowerCase_char c) \<le> 222
      \<and> code (toLowerCase_char c) \<noteq> 215)"
  using code_lt [of c] by (auto simp: code_toLowerCase_char)

lemma uncanonical_canonicalize:
  "uncanonical (canonicalize (toLowerCase_char c)) = code (toLowerCase_char c)"
proof -
  define x where "x = code (toLowerCase_char c)"
  have r: "\<not> (65 \<le> x \<and> x \<le> 90)" "\<not> (192 \<le> x \<and> x \<le> 222 \<and> x \<noteq> 215)" "x < 256"
    unfolding x_def using code_toLowerCase_char_range [of c] code_lt by auto
  have "uncanonical (if 97 \<le> x \<and> x \<le> 122 then x - 32
          else if 224 \<le> x \<and> x \<le> 254 \<and> x \<noteq> 247 then x - 32
          else if x = 255 then 376 else if x = 181 then 924 else x) = x"
    using r unfolding uncanonical_def by auto
  then show ?thesis
    unfolding canonicalize_def Let_def x_def .
qed

lemma canonicalize_lower_inj:
  assumes "canonicalize (toLowerCase_char a) = canonicalize (toLowerCase_char b)"
  shows "toLowerCase_char a = toLowerCase_char b"
proof -
  have "code (toLowerCase_char a) = code (toLowerCase_char b)"
    using assms uncanonical_canonicalize [of a] uncanonical_canonicalize [of b] by simp
  then show ?thesis
    by (simp add: code_inj)
qed

lemma upt_numeral_unfold: "[numeral m..<numeral n] =
    (if numeral m < (numeral n :: nat) then numeral m # [Suc (numeral m)..<numeral n] else [])"
  by (rule upt_rec)

lemma map_code_plainChars:
  "map code plainChars = [97..<123] @ [48..<58] @ [9..<14] @ [32, 160]"
  by (simp add: plainChars_def code_def upt_numeral_unfold)

lemma map_canonicalize_plainChars:
  "map canonicalize plainChars = [65..<91] @ [48..<58] @ [9..<14] @ [32, 160]"
  by (simp add: plainChars_def code_def canonicalize_def upt_numeral_unfold)

lemma plainChars_iff:
  "c \<in> set plainChars \<longleftrightarrow>
     (97 \<le> code c \<and> code c \<le> 122) \<or> (48 \<le> code c \<and> code c \<le> 57) \<or>
     (9 \<le> code c \<and> code c \<le> 13) \<or> code c = 32 \<or> code c = 160"
proof -
  have "c \<in> set plainChars \<longleftrightarrow> code c \<in> code ` set plainChars"
    by (auto simp: code_inj)
  also have "\<dots> \<longleftrightarrow> code c \<in> set (map code plainChars)"
    by simp
  also have "\<dots> \<longleftrightarrow> (97 \<le> code c \<and> code c \<le> 122) \<or> (48 \<le> code c \<and> code c \<le> 57) \<or>
     (9 \<le> code c \<and> code c \<le> 13) \<or> code c = 32 \<or> code c = 160"
    unfolding map_code_plainChars set_append set_upt by auto
  finally show ?thesis .
qed

lemma isSymbol_iff:
  "isSymbol c \<longleftrightarrow>
     \<not> ((65 \<le> canonicalize c \<and> canonicalize c \<le> 90) \<or> (48 \<le> canonicalize c \<and> canonicalize c \<le> 57) \<or>
     (9 \<le> canonicalize c \<and> canonicalize c \<le> 13) \<or> canonicalize c = 32 \<or> canonicalize c = 160)"
proof -
  have "isSymbol c \<longleftrightarrow> canonicalize c \<notin> set (map canonicalize plainChars)"
    unfolding isSymbol_def list_ex_iff set_map by (metis imageE imageI)
  also have "\<dots> \<longleftrightarrow> \<not> ((65 \<le> canonicalize c \<and> canonicalize c \<le> 90) \<or> (48 \<le> canonicalize c \<and> canonicalize c \<le> 57) \<or>
     (9 \<le> canonicalize c \<and> canonicalize c \<le> 13) \<or> canonicalize c = 32 \<or> canonicalize c = 160)"
    unfolding map_canonicalize_plainChars set_append set_upt by auto
  finally show ?thesis .
qed


lemma isSymbol_toLowerCase_char:
  "isSymbol (toLowerCase_char c) \<longleftrightarrow> toLowerCase_char c \<notin> set plainChars"
proof -
  define x where "x = code (toLowerCase_char c)"
  have r: "\<not> (65 \<le> x \<and> x \<le> 90)" "x < 256"
    unfolding x_def using code_toLowerCase_char_range [of c] code_lt by auto
  show ?thesis
    unfolding isSymbol_iff plainChars_iff canonicalize_def Let_def x_def [symmetric]
    using r by auto
qed

lemma specPlainChars_iff:
  "c \<in> set specPlainChars \<longleftrightarrow>
     (97 \<le> code c \<and> code c \<le> 122) \<or> (48 \<le> code c \<and> code c \<le> 57) \<or> code c = 32"
proof -
  have m: "map code specPlainChars = [97..<123] @ [48..<58] @ [32]"
    by (simp add: specPlainChars_def code_def upt_numeral_unfold)
  have "c \<in> set specPlainChars \<longleftrightarrow> code c \<in> code ` set specPlainChars"
    by (auto simp: code_inj)
  also have "\<dots> \<longleftrightarrow> code c \<in> set (map code specPlainChars)"
    by simp
  also have "\<dots> \<longleftrightarrow> (97 \<le> code c \<and> code c \<le> 122) \<or> (48 \<le> code c \<and> code c \<le> 57) \<or> code c = 32"
    unfolding m set_append set_upt by auto
  finally show ?thesis .
qed

lemma specPlain_plain: "c \<in> set specPlainChars \<Longrightarrow> c \<in> set plainChars"
  by (auto simp: specPlainChars_iff plainChars_iff)

lemma specPlain_lower: "c \<in> set specPlainChars \<Longrightarrow> toLowerCase_char c = c"
  by (auto simp: specPlainChars_iff toLowerCase_char_def Let_def)

lemma toLowerCase_idem: "toLowerCase (toLowerCase s) = toLowerCase s"
  by (simp add: toLowerCase_def toLowerCase_char_idem)

lemma toLowerCase_specPlain: "set k \<subseteq> set specPlainChars \<Longrightarrow> toLowerCase k = k"
  by (induction k) (auto simp: toLowerCase_def specPlain_lower)

lemma no_symbol_specPlain:
  assumes "set k \<subseteq> set specPlainChars"
  shows "\<not> list_ex isSymbol (toLowerCase k)"
proof -
  have "\<not> isSymbol c" if "c \<in> set k" for c
    using that assms isSymbol_toLowerCase_char [of c] specPlain_lower [of c] specPlain_plain [of c]
    by auto
  then show ?thesis
    using assms by (simp add: toLowerCase_specPlain list_ex_iff)
qed

lemma canonicalize_toLowerCase_eq:
  "map canonicalize (toLowerCase xs) = map canonicalize (toLowerCase ys) \<longleftrightarrow>
     toLowerCase xs = toLowerCase ys"
proof (induction xs arbitrary: ys)
  case Nil
  then show ?case by (auto simp: toLowerCase_def)
next
  case (Cons x xs)
  show ?case
  proof (cases ys)
    case Nil
    then show ?thesis by (simp add: toLowerCase_def)
  next
    case (Cons y ys')
    then show ?thesis
      using Cons.IH [of ys'] canonicalize_lower_inj [of x y]
      by (auto simp: toLowerCase_def)
  qed
qed

section \<open>The regular expression of a keyword\<close>

lemma isSyntaxChar_escaped: "isSyntaxChar c \<longleftrightarrow> c \<in> set escapedChars"
  by (auto simp: isSyntaxChar_def syntaxChars_def escapedChars_def)

lemma b_not_syntax: "\<not> isSyntaxChar (CHR ''b'')"
  by (simp add: isSyntaxChar_def syntaxChars_def backslash_def)

lemma backslash_syntax: "isSyntaxChar backslash"
  by (simp add: isSyntaxChar_def syntaxChars_def)

lemma RegExp_new_plain:
  "c \<noteq> backslash \<Longrightarrow> \<not> isSyntaxChar c \<Longrightarrow>
     RegExp_new (c # xs) = map_sum id (Cons (Literal c)) (RegExp_new xs)"
  by (cases xs) auto

lemma RegExp_new_escaped:
  "isSyntaxChar d \<Longrightarrow>
     RegExp_new (backslash # d # xs) = map_sum id (Cons (Literal d)) (RegExp_new xs)"
  using b_not_syntax by auto

lemma RegExp_new_boundary:
  "RegExp_new (backslash # CHR ''b'' # xs) = map_sum id (Cons WordBoundary) (RegExp_new xs)"
  by simp

lemma RegExp_new_escape:
  "RegExp_new (escape k @ xs) = map_sum id ((@) (map Literal k)) (RegExp_new xs)"
proof (induction k)
  case Nil
  show ?case
    by (cases "RegExp_new xs") (simp_all add: escape_def)
next
  case (Cons c k)
  have e: "escape (c # k) = (if c \<in> set escapedChars then [backslash, c] else [c]) @ escape k"
    by (simp add: escape_def)
  show ?case
  proof (cases "c \<in> set escapedChars")
    case True
    then have "isSyntaxChar c"
      by (simp add: isSyntaxChar_escaped)
    then show ?thesis
      using True Cons.IH e RegExp_new_escaped [of c "escape k @ xs"]
      by (cases "RegExp_new xs") simp_all
  next
    case False
    then have "\<not> isSyntaxChar c" "c \<noteq> backslash"
      using backslash_syntax by (auto simp: isSyntaxChar_escaped)
    then show ?thesis
      using False Cons.IH e RegExp_new_plain [of c "escape k @ xs"]
      by (cases "RegExp_new xs") simp_all
  qed
qed

lemma RegExp_new_pattern:
  "RegExp_new ([backslash, CHR ''b''] @ escape k @ [backslash, CHR ''b'']) =
     Inr (WordBoundary # map Literal k @ [WordBoundary])"
proof -
  have "RegExp_new [backslash, CHR ''b''] = Inr [WordBoundary]"
    by simp
  then have "RegExp_new (escape k @ [backslash, CHR ''b'']) = Inr (map Literal k @ [WordBoundary])"
    by (simp add: RegExp_new_escape)
  then show ?thesis
    using RegExp_new_boundary [of "escape k @ [backslash, CHR ''b'']"] by simp
qed

lemma matchAt_Literals:
  "i \<le> length s \<Longrightarrow>
   matchAt (map Literal k @ as) s i \<longleftrightarrow>
     (i + length k \<le> length s \<and>
      map canonicalize (take (length k) (drop i s)) = map canonicalize k \<and>
      matchAt as s (i + length k))"
proof (induction k arbitrary: i)
  case Nil
  then show ?case by simp
next
  case (Cons c k)
  show ?case
  proof (cases "i < length s")
    case True
    then have d: "drop i s = s ! i # drop (Suc i) s"
      by (simp add: Cons_nth_drop_Suc)
    from True have "Suc i \<le> length s" by simp
    from Cons.IH [OF this] show ?thesis
      using True by (auto simp: d)
  next
    case False
    then show ?thesis by simp
  qed
qed

lemma isWordCharAt_before: "isWordCharAt (pre @ rest) (int (length pre) - 1) = endsWithWord pre"
proof (cases "pre = []")
  case True
  then show ?thesis by (simp add: isWordCharAt_def endsWithWord_def)
next
  case False
  then have n: "nat (int (length pre) - 1) = length pre - 1" "length pre - 1 < length pre"
    by auto
  have "int (length pre) - 1 \<noteq> -1" "int (length pre) - 1 \<noteq> int (length (pre @ rest))"
    using False by auto
  then show ?thesis
    using False n by (simp add: isWordCharAt_def endsWithWord_def nth_append last_conv_nth)
qed

lemma isWordCharAt_after: "isWordCharAt (pre @ rest) (int (length pre)) = startsWithWord rest"
  by (cases rest) (simp_all add: isWordCharAt_def startsWithWord_def)

lemma isWordBoundary_append: "isWordBoundary (pre @ rest) (length pre) = boundaryBetween pre rest"
  by (simp add: isWordBoundary_def boundaryBetween_def isWordCharAt_before isWordCharAt_after)

lemma list_ex_upt_Suc: "list_ex P [0..<Suc n] \<longleftrightarrow> (\<exists>i\<le>n. P i)"
  by (simp only: list_ex_iff set_upt) (auto simp: less_Suc_eq_le)

lemma test_iff: "test re s \<longleftrightarrow> (\<exists>i\<le>length s. matchAt re s i)"
  by (simp only: test_def list_ex_upt_Suc)

lemma includes_str_sublist: "includes_str t k = sublist k t"
proof
  assume "includes_str t k"
  then obtain i where i: "i \<le> length t" "take (length k) (drop i t) = k"
    unfolding includes_str_def list_ex_upt_Suc by blast
  have "t = take i t @ take (length k) (drop i t) @ drop (length k) (drop i t)"
    by (simp only: append_take_drop_id)
  then have "t = take i t @ k @ drop (length k) (drop i t)"
    using i by simp
  then show "sublist k t"
    unfolding sublist_def by blast
next
  assume "sublist k t"
  then obtain ps ss where "t = ps @ k @ ss"
    by (auto simp: sublist_def)
  then have "length ps \<le> length t" "take (length k) (drop (length ps) t) = k"
    by auto
  then show "includes_str t k"
    unfolding includes_str_def list_ex_upt_Suc by blast
qed


lemma take_drop_toLowerCase:
  "take n (drop i (toLowerCase t)) = toLowerCase (take n (drop i t))"
  by (simp add: toLowerCase_def take_map drop_map)

lemma test_wholeToken:
  "test (WordBoundary # map Literal (toLowerCase k) @ [WordBoundary]) (toLowerCase t) =
     wholeToken (toLowerCase t) (toLowerCase k)"
proof -
  define s where "s = toLowerCase t"
  define k' where "k' = toLowerCase k"
  have m: "matchAt (WordBoundary # map Literal k' @ [WordBoundary]) s i \<longleftrightarrow>
      isWordBoundary s i \<and> i + length k' \<le> length s \<and> take (length k') (drop i s) = k' \<and>
      isWordBoundary s (i + length k')" if "i \<le> length s" for i
    using matchAt_Literals [OF that, of k' "[WordBoundary]"]
      canonicalize_toLowerCase_eq [of "take (length k') (drop i t)" k]
    by (auto simp: s_def k'_def take_drop_toLowerCase)
  show ?thesis
    unfolding s_def [symmetric] k'_def [symmetric]
  proof
    assume "test (WordBoundary # map Literal k' @ [WordBoundary]) s"
    then obtain i where i: "i \<le> length s" "isWordBoundary s i" "i + length k' \<le> length s"
      "take (length k') (drop i s) = k'" "isWordBoundary s (i + length k')"
      using m by (auto simp: test_iff)
    define pre where "pre = take i s"
    define post where "post = drop (length k') (drop i s)"
    have "s = take i s @ take (length k') (drop i s) @ drop (length k') (drop i s)"
      by (simp only: append_take_drop_id)
    then have s: "s = pre @ k' @ post"
      using i by (simp add: pre_def post_def)
    have l: "length pre = i" "length (pre @ k') = i + length k'"
      using i by (simp_all add: pre_def)
    have "boundaryBetween pre (k' @ post)"
      using isWordBoundary_append [of pre "k' @ post"] i l s by simp
    moreover have "boundaryBetween (pre @ k') post"
      using isWordBoundary_append [of "pre @ k'" post] i l s by simp
    ultimately show "wholeToken s k'"
      using s unfolding wholeToken_def by blast
  next
    assume "wholeToken s k'"
    then obtain pre post where s: "s = pre @ k' @ post"
      and b: "boundaryBetween pre (k' @ post)" "boundaryBetween (pre @ k') post"
      unfolding wholeToken_def by blast
    have "isWordBoundary s (length pre)"
      using isWordBoundary_append [of pre "k' @ post"] b s by simp
    moreover have "isWordBoundary s (length pre + length k')"
      using isWordBoundary_append [of "pre @ k'" post] b s by simp
    moreover have "length pre \<le> length s" "length pre + length k' \<le> length s"
      "take (length k') (drop (length pre) s) = k'"
      using s by simp_all
    ultimately have "matchAt (WordBoundary # map Literal k' @ [WordBoundary]) s (length pre)"
      using m [of "length pre"] by blast
    then show "test (WordBoundary # map Literal k' @ [WordBoundary]) s"
      using \<open>length pre \<le> length s\<close> unfolding test_iff by blast
  qed
qed

lemma keywordExists_eq: "keywordExists text keyword = Inr (keywordMatches text keyword)"
  by (simp add: keywordExists_def keywordMatches_def Let_def RegExp_new_pattern
      includes_str_sublist test_wholeToken del: append.simps)

lemma scanKeywords_eq:
  "scanKeywords lowerText ks matched = Inr (matched @ filter (keywordMatches lowerText) ks)"
  by (induction ks arbitrary: matched) (simp_all add: keywordExists_eq)

lemma calculateKeywordMatch_eq:
  "calculateKeywordMatch text cs =
     Inr \<lparr>score = min 100 (int (length (filter (keywordMatches (toLowerCase text))
                 (newSet (JOB_KEYWORDS @ map toLowerCase cs)))) * 10),
          matchedKeywords = filter (keywordMatches (toLowerCase text))
                 (newSet (JOB_KEYWORDS @ map toLowerCase cs))\<rparr>"
  by (simp add: calculateKeywordMatch_def Let_def scanKeywords_eq)

lemma keywordMatches_toLowerCase:
  "keywordMatches (toLowerCase text) keyword = keywordMatches text keyword"
  by (simp add: keywordMatches_def toLowerCase_idem)

section \<open>The set of keywords and the scan\<close>

lemma foldl_setAdd_set: "set (foldl setAdd acc xs) = set acc \<union> set xs"
  by (induction xs arbitrary: acc) auto

lemma foldl_setAdd_distinct: "distinct acc \<Longrightarrow> distinct (foldl setAdd acc xs)"
  by (induction xs arbitrary: acc) auto

lemma foldl_setAdd_skip:
  "x \<in> set acc \<union> set as \<Longrightarrow> foldl setAdd acc (as @ x # bs) = foldl setAdd acc (as @ bs)"
  by (simp add: foldl_setAdd_set)

lemma filter_setAdd: "filter P (setAdd acc a) = (if P a then setAdd (filter P acc) a else filter P acc)"
  by auto

lemma foldl_setAdd_filter:
  "foldl setAdd (filter P acc) (filter P xs) = filter P (foldl setAdd acc xs)"
proof (induction xs arbitrary: acc)
  case Nil
  show ?case by simp
next
  case (Cons a xs)
  have h: "foldl setAdd (filter P (setAdd acc a)) (filter P xs) =
      filter P (foldl setAdd (setAdd acc a) xs)"
    by (rule Cons.IH)
  show ?case
  proof (cases "P a")
    case True
    then show ?thesis
      using h by (simp only: foldl_Cons filter.simps filter_setAdd if_True)
  next
    case False
    then show ?thesis
      using h by (simp only: foldl_Cons filter.simps filter_setAdd if_False)
  qed
qed

lemma newSet_set: "set (newSet xs) = set xs"
  by (simp add: newSet_def foldl_setAdd_set)

lemma newSet_distinct: "distinct (newSet xs)"
  by (simp add: newSet_def foldl_setAdd_distinct)

lemma foldl_setAdd_id: "distinct (acc @ xs) \<Longrightarrow> foldl setAdd acc xs = acc @ xs"
  by (induction xs arbitrary: acc) auto

lemma newSet_id: "distinct xs \<Longrightarrow> newSet xs = xs"
  using foldl_setAdd_id [of "[]" xs] by (simp add: newSet_def)

lemma newSet_filter: "newSet (filter P xs) = filter P (newSet xs)"
  using foldl_setAdd_filter [of P "[]" xs] by (simp add: newSet_def)

lemma newSet_skip:
  "x \<in> set as \<Longrightarrow> newSet (as @ x # bs) = newSet (as @ bs)"
  using foldl_setAdd_skip [of x "[]" as bs] by (simp add: newSet_def)

lemma keywordMatches_empty_text: "\<not> keywordMatches [] keyword"
proof (cases "list_ex isSymbol (toLowerCase keyword)")
  case True
  then have "toLowerCase keyword \<noteq> []"
    by auto
  then show ?thesis
    using True by (simp add: keywordMatches_def toLowerCase_def)
next
  case False
  have "\<not> wholeToken [] k" for k
    by (auto simp: wholeToken_def boundaryBetween_def endsWithWord_def startsWithWord_def)
  then show ?thesis
    using False by (simp add: keywordMatches_def toLowerCase_def)
qed

section \<open>Properties of the scorer\<close>

lemma JOB_KEYWORDS_lower: "\<forall>b\<in>set JOB_KEYWORDS. toLowerCase b = b"
  by (simp add: JOB_KEYWORDS_def toLowerCase_def toLowerCase_char_def code_def Let_def)

lemma JOB_KEYWORDS_nonempty: "[] \<notin> set JOB_KEYWORDS"
  by (simp add: JOB_KEYWORDS_def)

lemma wholeToken_empty_term:
  assumes "\<exists>c\<in>set s. isWordChar c"
  shows "wholeToken s []"
proof -
  from assms obtain pre c post where s: "s = pre @ c # post" "isWordChar c"
    and n: "\<forall>x\<in>set pre. \<not> isWordChar x"
    using split_list_first_prop [of s isWordChar] by blast
  have "\<not> endsWithWord pre"
    using n by (auto simp: endsWithWord_def)
  moreover have "startsWithWord (c # post)"
    using s by (simp add: startsWithWord_def)
  ultimately have "boundaryBetween pre (c # post)"
    by (simp add: boundaryBetween_def)
  then show ?thesis
    unfolding wholeToken_def using s by (intro exI [of _ pre] exI [of _ "c # post"]) simp
qed

lemma keywordMatches_empty_term:
  assumes "\<exists>c\<in>set t. isWordChar c"
  shows "keywordMatches t []"
proof -
  have "\<exists>c\<in>set (toLowerCase t). isWordChar c"
    using assms by (auto simp: toLowerCase_def isWordChar_toLowerCase_char)
  then show ?thesis
    by (simp add: keywordMatches_def toLowerCase_def [of "[]"] wholeToken_empty_term)
qed

lemma count_list_distinct: "distinct xs \<Longrightarrow> count_list xs x \<le> 1"
  by (induction xs) (auto simp: count_list_0_iff)

lemma length_removeAll_distinct:
  "distinct xs \<Longrightarrow> x \<in> set xs \<Longrightarrow> length xs = Suc (length (removeAll x xs))"
  by (induction xs) auto

text \<open>
  C2. For every text and every list of custom terms the scorer returns a result whose
  score is the smaller of 100 and ten times the number of matched keywords; the score lies
  between 0 and 100, and it is exactly 100 as soon as ten or more keywords are matched.
\<close>

theorem score_is_min_100_of_ten_per_match:
  "\<exists>r. calculateKeywordMatch t cs = Inr r
     \<and> score r = min 100 (int (length (matchedKeywords r)) * 10)
     \<and> 0 \<le> score r \<and> score r \<le> 100
     \<and> score r = (if 10 \<le> length (matchedKeywords r) then 100
                   else int (length (matchedKeywords r)) * 10)"
  by (simp add: calculateKeywordMatch_eq)

text \<open>
  C7. The scorer returns a result for every text and every list of custom terms (the
  regular expression it builds for a keyword is always well formed), and for the empty
  text the result has score 0 and no matched keyword, whatever the custom terms are.
\<close>

theorem calculateKeywordMatch_total_and_empty_text:
  "(\<exists>r. calculateKeywordMatch t cs = Inr r)
     \<and> calculateKeywordMatch [] cs = Inr \<lparr>score = 0, matchedKeywords = []\<rparr>"
  by (simp add: calculateKeywordMatch_eq toLowerCase_def [of "[]"] keywordMatches_empty_text)

text \<open>
  C8. The matched keywords are the keywords of the effective vocabulary (the built-in
  list followed by the lower-cased custom terms, each kept at its first occurrence) that
  the matching test accepts, in the order of the scan: a subsequence of the vocabulary
  with no keyword twice.
\<close>

theorem matchedKeywords_distinct_subseq_of_vocabulary:
  "\<exists>r. calculateKeywordMatch t cs = Inr r
     \<and> distinct (matchedKeywords r)
     \<and> subseq (matchedKeywords r) (newSet (JOB_KEYWORDS @ map toLowerCase cs))
     \<and> matchedKeywords r =
         filter (\<lambda>k. keywordExists (toLowerCase t) k = Inr True)
           (newSet (JOB_KEYWORDS @ map toLowerCase cs))"
  by (simp add: calculateKeywordMatch_eq keywordExists_eq newSet_distinct)

text \<open>
  C6. A custom term that equals a built-in keyword up to letter case changes nothing:
  the result with the term, at any place of the custom list, is the result without it, and
  the keyword is matched at most once.
\<close>

theorem duplicate_custom_term_is_ignored:
  assumes "\<exists>b\<in>set JOB_KEYWORDS. toLowerCase c = toLowerCase b"
  shows "calculateKeywordMatch t (as @ c # bs) = calculateKeywordMatch t (as @ bs)
     \<and> (\<exists>r. calculateKeywordMatch t (as @ c # bs) = Inr r
           \<and> count_list (matchedKeywords r) (toLowerCase c) \<le> 1)"
proof -
  from assms have m: "toLowerCase c \<in> set (JOB_KEYWORDS @ map toLowerCase as)"
    using JOB_KEYWORDS_lower by auto
  have v: "newSet (JOB_KEYWORDS @ map toLowerCase (as @ c # bs)) =
      newSet (JOB_KEYWORDS @ map toLowerCase (as @ bs))"
    using newSet_skip [OF m, of "map toLowerCase bs"] by simp
  have "distinct (filter (keywordMatches (toLowerCase t))
      (newSet (JOB_KEYWORDS @ map toLowerCase (as @ bs))))"
    by (simp add: newSet_distinct)
  then have "count_list (filter (keywordMatches (toLowerCase t))
      (newSet (JOB_KEYWORDS @ map toLowerCase (as @ bs)))) (toLowerCase c) \<le> 1"
    by (rule count_list_distinct)
  then show ?thesis
    unfolding calculateKeywordMatch_eq v by simp
qed

theorem duplicate_custom_term_is_ignored_witness:
  "(\<exists>b\<in>set JOB_KEYWORDS. toLowerCase ''Java'' = toLowerCase b)
     \<and> calculateKeywordMatch ''I know Java'' [''rust'', ''Java'', ''perl''] =
       calculateKeywordMatch ''I know Java'' [''rust'', ''perl'']"
proof -
  have "''java'' \<in> set JOB_KEYWORDS"
    by (simp add: JOB_KEYWORDS_def)
  moreover have "toLowerCase ''Java'' = toLowerCase ''java''"
    unfolding toLowerCase_def by (simp add: code_inj [symmetric] code_toLowerCase_char) (simp add: code_def)
  ultimately have h: "\<exists>b\<in>set JOB_KEYWORDS. toLowerCase ''Java'' = toLowerCase b"
    by blast
  show ?thesis
    using h duplicate_custom_term_is_ignored [OF h, of "''I know Java''" "[''rust'']" "[''perl'']"]
    by simp
qed

section \<open>The extractors\<close>

declare readPages.simps [simp del]

lemma readPages_fails:
  "pageNum \<le> p \<Longrightarrow> p \<le> numPages doc \<Longrightarrow> pageFails doc p \<Longrightarrow>
     \<exists>e. readPages doc pageNum fullText = Inl e"
proof (induction doc pageNum fullText rule: readPages.induct)
  case (1 doc pageNum fullText)
  show ?case
  proof (cases "pageFails doc pageNum")
    case True
    then show ?thesis
      using "1.prems" by (subst readPages.simps) (auto simp: pageFails_def split: sum.splits)
  next
    case False
    then have "Suc pageNum \<le> p"
      using "1.prems" by (cases "p = pageNum") auto
    then show ?thesis
      using "1.IH" "1.prems" False
      by (subst readPages.simps) (auto simp: pageFails_def split: sum.splits)
  qed
qed

lemma readPages_succeeds:
  "\<forall>p. pageNum \<le> p \<and> p \<le> numPages doc \<longrightarrow> \<not> pageFails doc p \<Longrightarrow>
     \<exists>s. readPages doc pageNum fullText = Inr s"
proof (induction doc pageNum fullText rule: readPages.induct)
  case (1 doc pageNum fullText)
  show ?case
  proof (cases "pageNum \<le> numPages doc")
    case True
    then have "\<not> pageFails doc pageNum"
      using "1.prems" by simp
    then obtain strings where g: "getPage doc pageNum = Inr (Inr strings)"
      by (auto simp: pageFails_def split: sum.splits)
    have "\<exists>s. readPages doc (Suc pageNum) (fullText @ join '' '' strings @ [newline]) = Inr s"
      using "1.IH" [OF True g] "1.prems" by simp
    then show ?thesis
      using True g by (subst readPages.simps) simp
  next
    case False
    then show ?thesis
      by (subst readPages.simps) simp
  qed
qed

lemma readPages_blank:
  "\<forall>p. pageNum \<le> p \<and> p \<le> numPages doc \<longrightarrow> getPage doc p = Inr (Inr []) \<Longrightarrow>
     readPages doc pageNum fullText =
       Inr (fullText @ replicate (Suc (numPages doc) - pageNum) newline)"
proof (induction doc pageNum fullText rule: readPages.induct)
  case (1 doc pageNum fullText)
  show ?case
  proof (cases "pageNum \<le> numPages doc")
    case True
    then have g: "getPage doc pageNum = Inr (Inr [])"
      using "1.prems" by simp
    have "readPages doc (Suc pageNum) (fullText @ join '' '' [] @ [newline]) =
        Inr ((fullText @ join '' '' [] @ [newline]) @
          replicate (Suc (numPages doc) - Suc pageNum) newline)"
      using "1.IH" [OF True g] "1.prems" by simp
    moreover have "Suc (numPages doc) - pageNum = Suc (Suc (numPages doc) - Suc pageNum)"
      using True by simp
    ultimately show ?thesis
      using True g by (subst readPages.simps) (simp add: replicate_app_Cons_same)
  next
    case False
    then show ?thesis
      by (subst readPages.simps) simp
  qed
qed

lemma isSpace_newline: "isSpace newline"
  by (simp add: isSpace_def newline_def code_def)

lemma replaceSpaces_all_space:
  "\<forall>c\<in>set s. isSpace c \<Longrightarrow> replaceSpaces s = (if s = [] then [] else '' '')"
proof (cases s)
  case Nil
  then show ?thesis by simp
next
  case (Cons c cs)
  assume "\<forall>c\<in>set s. isSpace c"
  then have c: "isSpace c" and d: "dropWhile isSpace cs = []"
    using Cons by (simp_all add: dropWhile_eq_Nil_conv)
  show ?thesis
    by (simp add: Cons c d)
qed

lemma trim_blank: "trim (replaceSpaces (replicate n newline)) = []"
proof -
  have "isSpace (CHR '' '')"
    by (simp add: isSpace_def code_def)
  then show ?thesis
    using replaceSpaces_all_space [of "replicate n newline"] isSpace_newline
    by (auto simp: trim_def)
qed

lemma unparseable_extractBody: "unparseable getDoc buffer \<longleftrightarrow> (\<exists>e. extractBody getDoc buffer = Inl e)"
proof (cases "getDoc buffer")
  case (Inl e)
  then show ?thesis
    by (simp add: unparseable_def extractBody_def)
next
  case (Inr doc)
  show ?thesis
  proof (cases "\<exists>p. 1 \<le> p \<and> p \<le> numPages doc \<and> pageFails doc p")
    case True
    then obtain p where p: "1 \<le> p" "p \<le> numPages doc" "pageFails doc p"
      by blast
    then obtain e where "readPages doc 1 [] = Inl e"
      using readPages_fails [of 1 p doc "[]"] by blast
    moreover have "list_ex (pageFails doc) [1..<Suc (numPages doc)]"
      unfolding list_ex_iff using p by (auto simp del: upt_Suc)
    ultimately show ?thesis
      using Inr by (simp add: unparseable_def extractBody_def del: upt_Suc)
  next
    case False
    then obtain s where "readPages doc 1 [] = Inr s"
      using readPages_succeeds [of 1 doc "[]"] by auto
    moreover have "\<not> list_ex (pageFails doc) [1..<Suc (numPages doc)]"
      unfolding list_ex_iff using False by (auto simp del: upt_Suc)
    ultimately show ?thesis
      using Inr by (simp add: unparseable_def extractBody_def del: upt_Suc)
  qed
qed

lemma noTextLayer_extractBody: "noTextLayer getDoc buffer \<Longrightarrow> extractBody getDoc buffer = Inr []"
proof (cases "getDoc buffer")
  case (Inl e)
  assume "noTextLayer getDoc buffer"
  then show ?thesis
    using Inl by (simp add: noTextLayer_def)
next
  case (Inr doc)
  assume "noTextLayer getDoc buffer"
  then have "\<forall>p. 1 \<le> p \<and> p \<le> numPages doc \<longrightarrow> getPage doc p = Inr (Inr [])"
    using Inr unfolding noTextLayer_def list_all_iff by (auto simp del: upt_Suc)
  then have "readPages doc 1 [] = Inr ([] @ replicate (Suc (numPages doc) - 1) newline)"
    by (rule readPages_blank)
  then show ?thesis
    using Inr by (simp add: extractBody_def trim_blank)
qed

text \<open>
  C5, as the code has it. The serverless extractor returns a string on every buffer and
  never raises: the empty string when the document cannot be parsed, and the empty string
  when it has no text layer. The frontend extractor has no handler of its own: it returns
  the empty string when the document has no text layer, returns what the serverless
  extractor returns whenever the document can be parsed, and raises the error of the
  library when it cannot.
\<close>

theorem extractors_on_unreadable_documents:
  "(\<exists>s. extractTextFromPDF getDoc buffer = Inr s)
   \<and> (unparseable getDoc buffer \<longrightarrow>
        extractTextFromPDF getDoc buffer = Inr []
        \<and> (\<exists>e. extractPdfTextFromBlob getDoc buffer = Inl e))
   \<and> (noTextLayer getDoc buffer \<longrightarrow>
        extractTextFromPDF getDoc buffer = Inr []
        \<and> extractPdfTextFromBlob getDoc buffer = Inr [])
   \<and> (\<not> unparseable getDoc buffer \<longrightarrow>
        extractPdfTextFromBlob getDoc buffer = extractTextFromPDF getDoc buffer)"
  using unparseable_extractBody [of getDoc buffer] noTextLayer_extractBody [of getDoc buffer]
  by (cases "extractBody getDoc buffer")
    (auto simp: extractTextFromPDF_def extractPdfTextFromBlob_def try_catch_def)

theorem extractors_on_unreadable_documents_witness:
  "unparseable corruptedDocument [1, 2, 3]
   \<and> extractTextFromPDF corruptedDocument [1, 2, 3] = Inr []
   \<and> noTextLayer scannedDocument [1, 2, 3] \<and> \<not> unparseable scannedDocument [1, 2, 3]
   \<and> extractTextFromPDF scannedDocument [1, 2, 3] = Inr []
   \<and> extractPdfTextFromBlob scannedDocument [1, 2, 3] = Inr []"
proof -
  have a: "unparseable corruptedDocument [1, 2, 3]"
    by (simp add: unparseable_def corruptedDocument_def)
  have b: "noTextLayer scannedDocument [1, 2, 3]"
    by (simp add: noTextLayer_def scannedDocument_def blankPage_def list_all_iff)
  have c: "\<not> unparseable scannedDocument [1, 2, 3]"
    by (simp add: unparseable_def scannedDocument_def blankPage_def pageFails_def list_ex_iff)
  show ?thesis
    using a b c extractors_on_unreadable_documents [of corruptedDocument "[1, 2, 3]"]
      extractors_on_unreadable_documents [of scannedDocument "[1, 2, 3]"]
    by simp
qed

text \<open>C5 as stated fails for the frontend extractor: on a buffer that the library rejects
  it raises the library's error instead of returning the empty string.\<close>

theorem frontend_extractor_raises_counterexample:
  "extractPdfTextFromBlob corruptedDocument [1, 2, 3] = Inl PdfError"
  by (simp add: extractPdfTextFromBlob_def extractBody_def corruptedDocument_def)

section \<open>The scanning functions\<close>

lemma startsWith_prefix: "startsWith s k = prefix k s"
  by (induction s k rule: startsWith.induct) auto

lemma includesScan_sublist: "includesScan t k = sublist k t"
  by (induction t) (auto simp: startsWith_prefix sublist_Cons_right)

lemma endsWithWord_append:
  "endsWithWord (p @ k) = (if k = [] then endsWithWord p else isWordChar (last k))"
  by (simp add: endsWithWord_def)

lemma tokenHere_iff:
  assumes "wordBefore prev = endsWithWord p"
  shows "tokenHere prev rest k \<longleftrightarrow>
     (\<exists>post. rest = k @ post \<and> boundaryBetween p (k @ post) \<and> boundaryBetween (p @ k) post)"
proof (cases "prefix k rest")
  case True
  then obtain post where r: "rest = k @ post"
    by (auto simp: prefix_def)
  show ?thesis
    using assms by (auto simp: tokenHere_def startsWith_prefix r boundaryBetween_def endsWithWord_append)
next
  case False
  then show ?thesis
    by (auto simp: tokenHere_def startsWith_prefix)
qed

lemma tokenScan_iff:
  assumes "wordBefore prev = endsWithWord p"
  shows "tokenScan prev rest k \<longleftrightarrow>
     (\<exists>pre post. rest = pre @ k @ post \<and> boundaryBetween (p @ pre) (k @ post)
        \<and> boundaryBetween (p @ pre @ k) post)"
  using assms
proof (induction rest arbitrary: prev p)
  case Nil
  show ?case
    using tokenHere_iff [OF Nil, of "[]" k] by auto
next
  case (Cons c cs)
  have w: "wordBefore (Some c) = endsWithWord (p @ [c])"
    by (simp add: endsWithWord_def)
  have e: "(\<exists>pre post. c # cs = pre @ k @ post \<and> boundaryBetween (p @ pre) (k @ post)
        \<and> boundaryBetween (p @ pre @ k) post) \<longleftrightarrow>
      (\<exists>post. c # cs = k @ post \<and> boundaryBetween p (k @ post) \<and> boundaryBetween (p @ k) post)
      \<or> (\<exists>pre post. cs = pre @ k @ post \<and> boundaryBetween ((p @ [c]) @ pre) (k @ post)
        \<and> boundaryBetween ((p @ [c]) @ pre @ k) post)"
    (is "?L \<longleftrightarrow> ?A \<or> ?B")
  proof
    assume ?L
    then obtain pre post where h: "c # cs = pre @ k @ post" "boundaryBetween (p @ pre) (k @ post)"
      "boundaryBetween (p @ pre @ k) post"
      by blast
    show "?A \<or> ?B"
    proof (cases pre)
      case Nil
      then show ?thesis using h by auto
    next
      case (Cons a pre')
      then have "cs = pre' @ k @ post" "a = c"
        using h by auto
      then show ?thesis
        using h Cons by auto
    qed
  next
    assume "?A \<or> ?B"
    then show ?L
    proof
      assume ?A
      then show ?L
        by (metis append_Nil append_Nil2)
    next
      assume ?B
      then obtain pre post where "cs = pre @ k @ post" "boundaryBetween ((p @ [c]) @ pre) (k @ post)"
        "boundaryBetween ((p @ [c]) @ pre @ k) post"
        by blast
      then have "c # cs = (c # pre) @ k @ post \<and> boundaryBetween (p @ c # pre) (k @ post)
          \<and> boundaryBetween (p @ (c # pre) @ k) post"
        by simp
      then show ?L
        by blast
    qed
  qed
  have a: "tokenHere prev (c # cs) k \<longleftrightarrow>
      (\<exists>post. c # cs = k @ post \<and> boundaryBetween p (k @ post) \<and> boundaryBetween (p @ k) post)"
    by (rule tokenHere_iff [OF Cons.prems])
  have b: "tokenScan (Some c) cs k \<longleftrightarrow>
      (\<exists>pre post. cs = pre @ k @ post \<and> boundaryBetween ((p @ [c]) @ pre) (k @ post)
        \<and> boundaryBetween ((p @ [c]) @ pre @ k) post)"
    by (rule Cons.IH [OF w])
  have s: "tokenScan prev (c # cs) k \<longleftrightarrow> tokenHere prev (c # cs) k \<or> tokenScan (Some c) cs k"
    by simp
  show ?case
    by (simp only: s a b e)
qed

lemma tokenScan_wholeToken: "tokenScan None t k = wholeToken t k"
  using tokenScan_iff [of None "[]" t k] by (simp add: wholeToken_def endsWithWord_def)

lemma keywordMatches_scan:
  "keywordMatches t k = keywordScan (toLowerCase t) (toLowerCase k)"
  by (simp add: keywordMatches_def keywordScan_def includesScan_sublist tokenScan_wholeToken)

section \<open>Evaluation on the sample inputs\<close>

lemma isSymbol_eval:
  "isSymbol c = (let n = canonicalize c in
     \<not> ((65 \<le> n \<and> n \<le> 90) \<or> (48 \<le> n \<and> n \<le> 57) \<or> (9 \<le> n \<and> n \<le> 13) \<or> n = 32 \<or> n = 160))"
  by (simp add: isSymbol_iff Let_def)

declare isSymbol_eval [code]

lemmas scan_eval = keywordScan_def isSymbol_eval canonicalize_def code_def Let_def tokenHere_def
  startsWithWord_def isWordChar_def

lemma toLowerCase_by_code: "map code (toLowerCase s) = map code s' \<Longrightarrow> toLowerCase s = s'"
  using inj_map_eq_map [of code "toLowerCase s" s'] by (simp add: inj_on_def code_inj)

lemma map_code_toLowerCase:
  "map code (toLowerCase s) = map (\<lambda>n. if (65 \<le> n \<and> n \<le> 90) \<or> (192 \<le> n \<and> n \<le> 222 \<and> n \<noteq> 215)
      then n + 32 else n) (map code s)"
  by (simp add: toLowerCase_def code_toLowerCase_char)

lemma distinct_JOB_KEYWORDS: "distinct JOB_KEYWORDS"
  by code_simp

lemma keywordExists_scan:
  "keywordExists t k = Inr (keywordScan (toLowerCase t) (toLowerCase k))"
  by (simp only: keywordExists_eq keywordMatches_scan)

lemma lower_going: "toLowerCase ''I am going home'' = ''i am going home''"
  by (rule toLowerCase_by_code) (simp add: map_code_toLowerCase code_def)

lemma lower_daily: "toLowerCase ''I use Go daily'' = ''i use go daily''"
  by (rule toLowerCase_by_code) (simp add: map_code_toLowerCase code_def)


lemma lower_scenarioText:
  "toLowerCase scenarioText =
     ''senior python developer with aws and docker experience, jlpt n2 certified''"
  unfolding scenarioText_def
  by (rule toLowerCase_by_code) (simp add: map_code_toLowerCase code_def)

lemma lower_sample: "toLowerCase ''Go developer'' = ''go developer''"
  by (rule toLowerCase_by_code) (simp add: map_code_toLowerCase code_def)



lemma lower_go: "toLowerCase ''go'' = ''go''"
  by (rule toLowerCase_by_code) (simp add: map_code_toLowerCase code_def)



lemma go_in_going: "keywordExists ''I am going home'' ''go'' = Inr False"
  unfolding keywordExists_scan lower_going lower_go by (simp add: scan_eval)

lemma go_in_daily: "keywordExists ''I use Go daily'' ''go'' = Inr True"
  unfolding keywordExists_scan lower_daily lower_go by (simp add: scan_eval)





lemma filter_scan_JOB_KEYWORDS:
  "filter (keywordMatches t) JOB_KEYWORDS = filter (keywordScan (toLowerCase t)) JOB_KEYWORDS"
  using JOB_KEYWORDS_lower by (auto intro!: filter_cong simp: keywordMatches_scan)

lemma calculateKeywordMatch_builtin:
  "calculateKeywordMatch t [] =
     Inr \<lparr>score = min 100 (int (length (filter (keywordScan (toLowerCase t)) JOB_KEYWORDS)) * 10),
          matchedKeywords = filter (keywordScan (toLowerCase t)) JOB_KEYWORDS\<rparr>"
  by (simp add: calculateKeywordMatch_eq newSet_id distinct_JOB_KEYWORDS
      filter_scan_JOB_KEYWORDS toLowerCase_idem)

lemma scan_scenario:
  "filter (keywordScan ''senior python developer with aws and docker experience, jlpt n2 certified'')
     JOB_KEYWORDS = [''python'', ''aws'', ''docker'', ''jlpt'', ''n2'', ''senior'', ''developer'']"
  by code_simp

lemma scan_sample:
  "filter (keywordScan ''go developer'') JOB_KEYWORDS = [''go'', ''developer'']"
  by code_simp

lemma scenario_eval:
  "calculateKeywordMatch scenarioText [] =
     Inr \<lparr>score = 70,
          matchedKeywords =
            [''python'', ''aws'', ''docker'', ''jlpt'', ''n2'', ''senior'', ''developer'']\<rparr>"
  by (simp add: calculateKeywordMatch_builtin lower_scenarioText scan_scenario)

lemma sample_eval:
  "calculateKeywordMatch ''Go developer'' [] =
     Inr \<lparr>score = 20, matchedKeywords = [''go'', ''developer'']\<rparr>"
  by (simp add: calculateKeywordMatch_builtin lower_sample scan_sample)

lemma sample_extract: "extractTextFromPDF sampleDocument [1, 2, 3] = Inr ''Go developer''"
  by (simp add: extractTextFromPDF_def try_catch_def extractBody_def sampleDocument_def
      samplePage_def readPages.simps newline_def trim_def isSpace_def code_def)

section \<open>Matching a keyword\<close>

lemma specPlain_word: "c \<in> set specPlainChars \<Longrightarrow> c \<noteq> CHR '' '' \<Longrightarrow> isWordChar c"
proof -
  assume a: "c \<in> set specPlainChars" and b: "c \<noteq> CHR '' ''"
  have "code (CHR '' '') = 32"
    by (simp add: code_def)
  then have "code c \<noteq> 32"
    using b code_inj [of c "CHR '' ''"] by simp
  then show ?thesis
    using a by (auto simp: specPlainChars_iff isWordChar_def)
qed

lemma wholeToken_word_ends:
  assumes "k \<noteq> []" "isWordChar (hd k)" "isWordChar (last k)"
  shows "wholeToken s k \<longleftrightarrow>
     (\<exists>pre post. s = pre @ k @ post \<and> \<not> endsWithWord pre \<and> \<not> startsWithWord post)"
proof -
  have "startsWithWord (k @ post)" for post
    using assms by (cases k) (simp_all add: startsWithWord_def)
  moreover have "endsWithWord (pre @ k)" for pre
    using assms by (simp add: endsWithWord_def)
  ultimately show ?thesis
    by (simp add: wholeToken_def boundaryBetween_def)
qed

lemma keywordExists_plain:
  assumes "set k \<subseteq> set specPlainChars"
  shows "keywordExists t k = Inr (wholeToken (toLowerCase t) k)"
  using assms no_symbol_specPlain [OF assms]
  by (simp add: keywordExists_eq keywordMatches_def toLowerCase_specPlain)


text \<open>
  C1, as the code has it. For the scenario text and no custom term the scorer returns the
  seven keywords python, aws, docker, jlpt, n2, senior, developer, in the order of the
  built-in list, and the score 70: jlpt and developer are built-in keywords too, and both
  stand in the text as whole words.
\<close>

theorem scenario_matches_seven_keywords:
  "calculateKeywordMatch scenarioText [] =
     Inr \<lparr>score = 70,
          matchedKeywords =
            [''python'', ''aws'', ''docker'', ''jlpt'', ''n2'', ''senior'', ''developer'']\<rparr>"
  by (rule scenario_eval)

text \<open>C1 as stated fails: the result is not the five keywords with the score 50.\<close>

theorem scenario_five_keywords_counterexample:
  "calculateKeywordMatch scenarioText [] \<noteq>
     Inr \<lparr>score = 50,
          matchedKeywords = [''python'', ''aws'', ''docker'', ''senior'', ''n2'']\<rparr>"
  by (simp add: scenario_eval)

text \<open>
  C3, as the code has it. For a term whose characters are all among a to z, 0 to 9 and the
  space, the matching test succeeds exactly when the term occurs in the lower-cased text
  with a word boundary of the regular expression at its start and at its end: at each of
  the two places exactly one of the two neighbouring characters is among A to Z, a to z,
  0 to 9 and the underscore, a missing neighbour counting as not among them. When the term
  moreover is not empty and begins and ends with a letter or a digit, this is an occurrence
  with none of these characters directly before or after it. The term go is not matched in
  "I am going home" and is matched in "I use Go daily".
\<close>

theorem plain_term_matches_as_whole_token:
  "(set k \<subseteq> set specPlainChars \<longrightarrow>
      keywordExists t k = Inr (wholeToken (toLowerCase t) k))
   \<and> (set k \<subseteq> set specPlainChars \<and> k \<noteq> [] \<and> hd k \<noteq> CHR '' '' \<and> last k \<noteq> CHR '' '' \<longrightarrow>
        (keywordExists t k = Inr True \<longleftrightarrow>
          (\<exists>pre post. toLowerCase t = pre @ k @ post
             \<and> \<not> endsWithWord pre \<and> \<not> startsWithWord post)))
   \<and> keywordExists ''I am going home'' ''go'' = Inr False
   \<and> keywordExists ''I use Go daily'' ''go'' = Inr True"
proof -
  have "keywordExists t k = Inr True \<longleftrightarrow>
      (\<exists>pre post. toLowerCase t = pre @ k @ post \<and> \<not> endsWithWord pre \<and> \<not> startsWithWord post)"
    if s: "set k \<subseteq> set specPlainChars" and n: "k \<noteq> []"
      and h: "hd k \<noteq> CHR '' ''" and l: "last k \<noteq> CHR '' ''"
  proof -
    have "isWordChar (hd k)" "isWordChar (last k)"
      using s h l hd_in_set [OF n] last_in_set [OF n] specPlain_word by blast+
    then show ?thesis
      using keywordExists_plain [OF s, of t] wholeToken_word_ends [OF n, of "toLowerCase t"]
      by simp
  qed
  then show ?thesis
    using keywordExists_plain [of k t] go_in_going go_in_daily by blast
qed

theorem plain_term_matches_as_whole_token_witness:
  "set ''go'' \<subseteq> set specPlainChars \<and> ''go'' \<noteq> [] \<and> hd ''go'' \<noteq> CHR '' ''
     \<and> last ''go'' \<noteq> CHR '' ''
     \<and> wholeToken (toLowerCase ''I use Go daily'') ''go''
     \<and> \<not> wholeToken (toLowerCase ''I am going home'') ''go''
     \<and> (\<exists>pre post. toLowerCase ''I use Go daily'' = pre @ ''go'' @ post
           \<and> \<not> endsWithWord pre \<and> \<not> startsWithWord post)"
proof -
  have h: "set ''go'' \<subseteq> set specPlainChars" "''go'' \<noteq> []" "hd ''go'' \<noteq> CHR '' ''"
    "last ''go'' \<noteq> CHR '' ''"
    by (simp_all add: specPlainChars_def)
  note daily = plain_term_matches_as_whole_token [of "''go''" "''I use Go daily''"]
  note going = plain_term_matches_as_whole_token [of "''go''" "''I am going home''"]
  have a: "keywordExists ''I use Go daily'' ''go'' =
      Inr (wholeToken (toLowerCase ''I use Go daily'') ''go'')"
    using daily h by blast
  have b: "keywordExists ''I use Go daily'' ''go'' = Inr True"
    using daily by blast
  have c: "keywordExists ''I am going home'' ''go'' =
      Inr (wholeToken (toLowerCase ''I am going home'') ''go'')"
    using going h by blast
  have d: "keywordExists ''I am going home'' ''go'' = Inr False"
    using going by blast
  have e: "\<exists>pre post. toLowerCase ''I use Go daily'' = pre @ ''go'' @ post
      \<and> \<not> endsWithWord pre \<and> \<not> startsWithWord post"
    using daily h b by blast
  have "wholeToken (toLowerCase ''I use Go daily'') ''go''"
    using a b by simp
  moreover have "\<not> wholeToken (toLowerCase ''I am going home'') ''go''"
    using c d by simp
  ultimately show ?thesis
    using h e by blast
qed

lemma lower_ecoleText: "toLowerCase ecoleText = ecoleText"
  unfolding ecoleText_def
  by (rule toLowerCase_by_code) (simp add: map_code_toLowerCase code_def)

lemma lower_cole: "toLowerCase ''cole'' = ''cole''"
  by (rule toLowerCase_by_code) (simp add: map_code_toLowerCase code_def)

lemma lower_space_go: "toLowerCase '' go'' = '' go''"
  by (rule toLowerCase_by_code) (simp add: map_code_toLowerCase code_def)

lemma cole_in_ecole: "keywordExists ecoleText ''cole'' = Inr True"
  unfolding keywordExists_scan lower_ecoleText lower_cole
  by (simp add: scan_eval ecoleText_def)

lemma space_go_alone: "keywordExists '' go'' '' go'' = Inr False"
  unfolding keywordExists_scan lower_space_go by (simp add: scan_eval)

lemma cole_not_specWholeToken: "\<not> specWholeToken ecoleText ''cole''"
proof
  assume "specWholeToken ecoleText ''cole''"
  then obtain pre post where e: "ecoleText = pre @ ''cole'' @ post"
    and n: "\<not> straddles pre (''cole'' @ post)"
    unfolding specWholeToken_def by blast
  have "length ecoleText = length pre + 4 + length post"
    by (subst e) simp
  then have l: "length pre + length post = 1"
    by (simp add: ecoleText_def)
  show False
  proof (cases pre)
    case Nil
    then show False
      using e by (simp add: ecoleText_def)
  next
    case (Cons x xs)
    then have "xs = []" "post = []"
      using l by simp_all
    then have "pre = [CHR 0xE9]"
      using e Cons by (simp add: ecoleText_def)
    then have "straddles pre (''cole'' @ post)"
      by (simp add: straddles_def isLetterOrDigit_def code_def)
    then show False
      using n by simp
  qed
qed

lemma space_go_specWholeToken: "specWholeToken '' go'' '' go''"
  unfolding specWholeToken_def
  by (intro exI [of _ "[]"]) (simp add: straddles_def)

text \<open>C3 as stated fails in both directions. The term cole is matched in the word ecole
  written with its accent, where it is the end of a larger token: the accented letter is not
  a word character of the regular expression. The term made of a space and go is not matched
  in the text that is this term alone, though no token runs across either end of it: the
  space at its start needs a word character before it.\<close>

theorem whole_token_counterexample:
  "set ''cole'' \<subseteq> set specPlainChars
     \<and> keywordExists ecoleText ''cole'' = Inr True
     \<and> \<not> specWholeToken (toLowerCase ecoleText) ''cole''
     \<and> set '' go'' \<subseteq> set specPlainChars
     \<and> specWholeToken (toLowerCase '' go'') '' go''
     \<and> keywordExists '' go'' '' go'' = Inr False"
  using cole_in_ecole cole_not_specWholeToken space_go_specWholeToken space_go_alone
  by (simp add: lower_ecoleText lower_space_go specPlainChars_def)




section \<open>The empty custom term\<close>

lemma vocabulary_lower:
  "\<forall>k\<in>set (newSet (JOB_KEYWORDS @ map toLowerCase cs)). toLowerCase k = k"
  using JOB_KEYWORDS_lower by (auto simp: newSet_set toLowerCase_idem)

lemma calculateKeywordMatch_scan:
  "calculateKeywordMatch t cs =
     Inr \<lparr>score = min 100 (int (length (filter (keywordScan (toLowerCase t))
                 (newSet (JOB_KEYWORDS @ map toLowerCase cs)))) * 10),
          matchedKeywords = filter (keywordScan (toLowerCase t))
                 (newSet (JOB_KEYWORDS @ map toLowerCase cs))\<rparr>"
proof -
  have "filter (keywordMatches (toLowerCase t)) (newSet (JOB_KEYWORDS @ map toLowerCase cs)) =
      filter (keywordScan (toLowerCase t)) (newSet (JOB_KEYWORDS @ map toLowerCase cs))"
    using vocabulary_lower [of cs]
    by (auto intro!: filter_cong simp: keywordMatches_scan toLowerCase_idem)
  then show ?thesis
    by (simp add: calculateKeywordMatch_eq)
qed

lemma lower_r2d2: "toLowerCase ''R2 d2'' = ''r2 d2''"
  by (rule toLowerCase_by_code) (simp add: map_code_toLowerCase code_def)

lemma lower_rust: "toLowerCase ''rust'' = ''rust''"
  by (rule toLowerCase_by_code) (simp add: map_code_toLowerCase code_def)

lemma vocabulary_rust: "newSet (JOB_KEYWORDS @ [''rust'']) = JOB_KEYWORDS"
  by code_simp

lemma scan_r2d2_builtin: "filter (keywordScan ''r2 d2'') JOB_KEYWORDS = []"
  by code_simp

lemma r2d2_eval:
  "calculateKeywordMatch ''R2 d2'' [''rust''] = Inr \<lparr>score = 0, matchedKeywords = []\<rparr>"
  by (simp add: calculateKeywordMatch_scan lower_r2d2 lower_rust vocabulary_rust
      scan_r2d2_builtin)

text \<open>
  C10, as the code has it. When the custom terms contain the empty string and the text
  contains a character among A to Z, a to z, 0 to 9 and the underscore, the empty string is
  among the matched keywords and counts as one matched keyword: without it the other
  matched keywords are the same, and the score is the score without it plus 10, capped at
  100, so exactly 10 more while fewer than ten other keywords match.
\<close>

theorem empty_custom_term_is_matched:
  assumes "[] \<in> set cs" and "\<exists>c\<in>set t. isWordChar c"
  shows "\<exists>r r0. calculateKeywordMatch t cs = Inr r
     \<and> [] \<in> set (matchedKeywords r)
     \<and> keywordExists (toLowerCase t) [] = Inr True
     \<and> calculateKeywordMatch t (removeAll [] cs) = Inr r0
     \<and> matchedKeywords r0 = removeAll [] (matchedKeywords r)
     \<and> length (matchedKeywords r) = Suc (length (matchedKeywords r0))
     \<and> score r = min 100 (score r0 + 10)
     \<and> (length (matchedKeywords r0) < 10 \<longrightarrow> score r = score r0 + 10)"
proof -
  define V where "V = newSet (JOB_KEYWORDS @ map toLowerCase cs)"
  define m where "m = filter (keywordMatches (toLowerCase t)) V"
  have k: "keywordMatches (toLowerCase t) []"
    using assms(2) by (simp add: keywordMatches_toLowerCase keywordMatches_empty_term)
  have "[] \<in> set V"
    using assms(1) by (force simp: V_def newSet_set toLowerCase_def)
  then have mem: "[] \<in> set m"
    using k by (simp add: m_def)
  have d: "distinct m"
    by (simp add: m_def V_def newSet_distinct)
  have "map toLowerCase (removeAll [] cs) = removeAll [] (map toLowerCase cs)"
    by (induction cs) (auto simp: toLowerCase_def)
  moreover have "removeAll [] JOB_KEYWORDS = JOB_KEYWORDS"
    using JOB_KEYWORDS_nonempty by simp
  ultimately have "JOB_KEYWORDS @ map toLowerCase (removeAll [] cs) =
      filter ((\<noteq>) []) (JOB_KEYWORDS @ map toLowerCase cs)"
    by (simp add: removeAll_filter_not_eq)
  then have "newSet (JOB_KEYWORDS @ map toLowerCase (removeAll [] cs)) = filter ((\<noteq>) []) V"
    by (simp only: V_def newSet_filter)
  moreover have "filter (keywordMatches (toLowerCase t)) (filter ((\<noteq>) []) V) =
      filter ((\<noteq>) []) (filter (keywordMatches (toLowerCase t)) V)"
    by (simp add: conj_commute)
  ultimately have m0: "filter (keywordMatches (toLowerCase t))
      (newSet (JOB_KEYWORDS @ map toLowerCase (removeAll [] cs))) = removeAll [] m"
    by (simp only: m_def removeAll_filter_not_eq)
  have l: "length m = Suc (length (removeAll [] m))"
    using d mem by (rule length_removeAll_distinct)
  show ?thesis
    unfolding calculateKeywordMatch_eq m0 V_def [symmetric] m_def [symmetric]
    using mem l k by (simp add: keywordExists_eq)
qed

theorem empty_custom_term_is_matched_witness:
  "[] \<in> set [''rust'', []] \<and> (\<exists>c\<in>set ''R2 d2''. isWordChar c)
     \<and> calculateKeywordMatch ''R2 d2'' (removeAll [] [''rust'', []]) =
         Inr \<lparr>score = 0, matchedKeywords = []\<rparr>
     \<and> calculateKeywordMatch ''R2 d2'' [''rust'', []] =
         Inr \<lparr>score = 10, matchedKeywords = [[]]\<rparr>"
proof -
  have a: "[] \<in> set [''rust'', []]"
    by simp
  have b: "\<exists>c\<in>set ''R2 d2''. isWordChar c"
    by (simp add: isWordChar_def code_def)
  have c: "calculateKeywordMatch ''R2 d2'' (removeAll [] [''rust'', []]) =
      Inr \<lparr>score = 0, matchedKeywords = []\<rparr>"
    by (simp add: r2d2_eval)
  obtain r r0 where r: "calculateKeywordMatch ''R2 d2'' [''rust'', []] = Inr r"
    and m: "[] \<in> set (matchedKeywords r)"
    and r0: "calculateKeywordMatch ''R2 d2'' (removeAll [] [''rust'', []]) = Inr r0"
    and l: "length (matchedKeywords r) = Suc (length (matchedKeywords r0))"
    and s: "score r = min 100 (score r0 + 10)"
    using empty_custom_term_is_matched [OF a b] by blast
  from c r0 have z: "r0 = \<lparr>score = 0, matchedKeywords = []\<rparr>"
    by simp
  from l z obtain x where x: "matchedKeywords r = [x]"
    by (cases "matchedKeywords r") auto
  with m have "matchedKeywords r = [[]]"
    by simp
  moreover from s z have "score r = 10"
    by simp
  ultimately have "r = \<lparr>score = 10, matchedKeywords = [[]]\<rparr>"
    by simp
  with a b c r show ?thesis
    by simp
qed

lemma lower_tenText: "toLowerCase tenText = tenText"
  unfolding tenText_def
  by (rule toLowerCase_by_code) (simp add: map_code_toLowerCase code_def)

lemma scan_tenText: "filter (keywordScan tenText) JOB_KEYWORDS = tenKeywords"
  by code_simp

lemma scan_tenText_empty: "keywordScan tenText []"
  by code_simp

lemma vocabulary_empty_term: "newSet (JOB_KEYWORDS @ [[]]) = JOB_KEYWORDS @ [[]]"
  using distinct_JOB_KEYWORDS JOB_KEYWORDS_nonempty by (simp add: newSet_id)

lemma tenText_eval:
  "calculateKeywordMatch tenText [] = Inr \<lparr>score = 100, matchedKeywords = tenKeywords\<rparr>"
  by (simp add: calculateKeywordMatch_builtin lower_tenText scan_tenText tenKeywords_def)

lemma tenText_empty_term_eval:
  "calculateKeywordMatch tenText [[]] =
     Inr \<lparr>score = 100, matchedKeywords = tenKeywords @ [[]]\<rparr>"
  by (simp add: calculateKeywordMatch_scan toLowerCase_def [of "[]"] vocabulary_empty_term
      lower_tenText scan_tenText scan_tenText_empty tenKeywords_def)

lemma lower_eAcute: "toLowerCase eAcute = eAcute"
  unfolding eAcute_def
  by (rule toLowerCase_by_code) (simp add: map_code_toLowerCase code_def)

lemma scan_eAcute: "filter (keywordScan eAcute) JOB_KEYWORDS = []"
  by code_simp

lemma scan_eAcute_empty: "\<not> keywordScan eAcute []"
  by code_simp

lemma eAcute_eval:
  "calculateKeywordMatch eAcute [[]] = Inr \<lparr>score = 0, matchedKeywords = []\<rparr>"
  by (simp add: calculateKeywordMatch_scan toLowerCase_def [of "[]"] vocabulary_empty_term
      lower_eAcute scan_eAcute scan_eAcute_empty)

text \<open>C10 as stated fails. With ten built-in keywords in the text the empty custom term
  is matched and the score is 100, as it is without the term: the term adds no point. And
  in the text made of the one letter e with an acute accent the empty term is not matched:
  the letter is not a word character of the regular expression.\<close>

theorem empty_term_adds_nothing_counterexample:
  "[] \<in> set [[]] \<and> CHR ''j'' \<in> set tenText \<and> isWordChar (CHR ''j'')
     \<and> calculateKeywordMatch tenText [[]] =
         Inr \<lparr>score = 100, matchedKeywords = tenKeywords @ [[]]\<rparr>
     \<and> calculateKeywordMatch tenText [] = Inr \<lparr>score = 100, matchedKeywords = tenKeywords\<rparr>
     \<and> CHR 0xE9 \<in> set eAcute \<and> isLetterOrDigit (CHR 0xE9)
     \<and> calculateKeywordMatch eAcute [[]] = Inr \<lparr>score = 0, matchedKeywords = []\<rparr>"
  using tenText_eval tenText_empty_term_eval eAcute_eval
  by (simp add: tenText_def eAcute_def isWordChar_def isLetterOrDigit_def code_def)

section \<open>The stored row\<close>

lemma extractTextFromPDF_total: "\<exists>s. extractTextFromPDF getDoc buffer = Inr s"
  by (cases "extractBody getDoc buffer") (simp_all add: extractTextFromPDF_def try_catch_def)

lemma replaceSpaces_no_space:
  "\<forall>c\<in>set s. \<not> isSpace c \<Longrightarrow> replaceSpaces (s @ r) = s @ replaceSpaces r"
  by (induction s) simp_all

lemma replaceSpaces_newline: "replaceSpaces [newline] = '' ''"
  by (simp add: isSpace_newline)

lemma trim_no_space:
  assumes "s \<noteq> []" and "\<forall>c\<in>set s. \<not> isSpace c"
  shows "trim (s @ '' '') = s"
proof -
  have sp: "isSpace (CHR '' '')"
    by (simp add: isSpace_def code_def)
  obtain x xs where s: "s = x # xs"
    using assms(1) by (cases s) auto
  then have a: "dropWhile isSpace (s @ '' '') = s @ '' ''"
    using assms(2) by simp
  have "\<not> isSpace (last s)"
    using assms by simp
  then have "dropWhile isSpace (rev s) = rev s"
    using assms(1) by (cases "rev s") (auto simp: last_rev [symmetric] simp del: last_rev)
  then have "dropWhile isSpace (rev (s @ '' '')) = rev s"
    using sp by simp
  then show ?thesis
    by (simp add: trim_def a)
qed

lemma longItem_no_space: "\<forall>c\<in>set longItem. \<not> isSpace c"
proof -
  have "\<not> isSpace (CHR ''a'')"
    by (simp add: isSpace_def code_def)
  then show ?thesis
    unfolding longItem_def by (simp only: set_replicate_conv_if split: if_splits) simp
qed

lemma length_longItem: "length longItem = 60000"
  unfolding longItem_def by (rule length_replicate)

lemma longItem_nonempty: "longItem \<noteq> []"
  using length_longItem by auto

lemma take_longItem: "take 50000 longItem = replicate 50000 (CHR ''a'')"
  unfolding longItem_def by (simp only: take_replicate) simp

lemma long_extract: "extractTextFromPDF longDocument [1, 2, 3] = Inr longItem"
proof -
  have "readPages \<lparr>numPages = 1, getPage = longPage\<rparr> 1 [] = Inr (longItem @ [newline])"
    by (simp add: readPages.simps longPage_def)
  moreover have "replaceSpaces (longItem @ [newline]) = longItem @ '' ''"
    using replaceSpaces_no_space [OF longItem_no_space, of "[newline]"]
    by (simp only: replaceSpaces_newline)
  moreover have "trim (longItem @ '' '') = longItem"
    using longItem_nonempty longItem_no_space by (rule trim_no_space)
  ultimately show ?thesis
    by (simp add: extractTextFromPDF_def try_catch_def extractBody_def longDocument_def)
qed

text \<open>
  C9. Once the download of the file has succeeded the handler sends one update to the
  \<open>applicants\<close> table, and in every update it sends the stored text is the first 50000
  characters of the extracted text (all of it when it is shorter), while the matched
  keywords and the score are those the scorer returned for the whole extracted text.
\<close>

theorem handler_stores_truncated_text:
  "(handler be req = (resp, Some (aid, row)) \<longrightarrow>
      (\<exists>rb path pdfBuffer extractedText r.
         json req = Inr rb \<and> applicantId rb = Some aid \<and> cvFilePath rb = Some path
       \<and> download be path = Inr pdfBuffer
       \<and> extractTextFromPDF (getDocument be) pdfBuffer = Inr extractedText
       \<and> calculateKeywordMatch extractedText
             (case customKeywords rb of None \<Rightarrow> [] | Some ks \<Rightarrow> ks) = Inr r
       \<and> cv_extracted_text row = take (min (length extractedText) 50000) extractedText
       \<and> length (cv_extracted_text row) = min (length extractedText) 50000
       \<and> prefix (cv_extracted_text row) extractedText
       \<and> matched_keywords row = matchedKeywords r
       \<and> keyword_match_score row = score r))
   \<and> (req_method req \<noteq> ''OPTIONS'' \<and> json req = Inr b
        \<and> applicantId b = Some ident \<and> ident \<noteq> [] \<and> cvFilePath b = Some file \<and> file \<noteq> []
        \<and> download be file = Inr buffer \<longrightarrow>
      (\<exists>extractedText r answer.
         extractTextFromPDF (getDocument be) buffer = Inr extractedText
       \<and> calculateKeywordMatch extractedText
             (case customKeywords b of None \<Rightarrow> [] | Some ks \<Rightarrow> ks) = Inr r
       \<and> handler be req =
           (answer, Some (ident, \<lparr>cv_extracted_text = take 50000 extractedText,
                                  matched_keywords = matchedKeywords r,
                                  keyword_match_score = score r\<rparr>))
       \<and> length (take 50000 extractedText) = min (length extractedText) 50000))"
proof (intro conjI impI)
  assume h: "handler be req = (resp, Some (aid, row))"
  have t: "take 50000 s = take (min (length s) 50000) s" for s :: string
    by (simp add: min_def)
  have p: "prefix (take n s) s" for s :: string and n
    by (rule take_is_prefix)
  from h show "\<exists>rb path pdfBuffer extractedText r.
         json req = Inr rb \<and> applicantId rb = Some aid \<and> cvFilePath rb = Some path
       \<and> download be path = Inr pdfBuffer
       \<and> extractTextFromPDF (getDocument be) pdfBuffer = Inr extractedText
       \<and> calculateKeywordMatch extractedText
             (case customKeywords rb of None \<Rightarrow> [] | Some ks \<Rightarrow> ks) = Inr r
       \<and> cv_extracted_text row = take (min (length extractedText) 50000) extractedText
       \<and> length (cv_extracted_text row) = min (length extractedText) 50000
       \<and> prefix (cv_extracted_text row) extractedText
       \<and> matched_keywords row = matchedKeywords r
       \<and> keyword_match_score row = score r"
    unfolding handler_def internalError_def missingField_def Let_def
    by (auto split: if_splits sum.splits option.splits prod.splits simp: t p)
next
  assume a: "req_method req \<noteq> ''OPTIONS'' \<and> json req = Inr b
        \<and> applicantId b = Some ident \<and> ident \<noteq> [] \<and> cvFilePath b = Some file \<and> file \<noteq> []
        \<and> download be file = Inr buffer"
  obtain extractedText where e: "extractTextFromPDF (getDocument be) buffer = Inr extractedText"
    using extractTextFromPDF_total by blast
  obtain r where r: "calculateKeywordMatch extractedText
      (case customKeywords b of None \<Rightarrow> [] | Some ks \<Rightarrow> ks) = Inr r"
    by (simp add: calculateKeywordMatch_eq)
  define sent where "sent = \<lparr>cv_extracted_text = take 50000 extractedText,
      matched_keywords = matchedKeywords r, keyword_match_score = score r\<rparr>"
  have "\<exists>answer. handler be req = (answer, Some (ident, sent))"
    using a e r unfolding handler_def Let_def sent_def
    by (cases "update be ident \<lparr>cv_extracted_text = take 50000 extractedText,
      matched_keywords = matchedKeywords r, keyword_match_score = score r\<rparr>") simp_all
  then show "\<exists>extractedText r answer.
         extractTextFromPDF (getDocument be) buffer = Inr extractedText
       \<and> calculateKeywordMatch extractedText
             (case customKeywords b of None \<Rightarrow> [] | Some ks \<Rightarrow> ks) = Inr r
       \<and> handler be req =
           (answer, Some (ident, \<lparr>cv_extracted_text = take 50000 extractedText,
                                  matched_keywords = matchedKeywords r,
                                  keyword_match_score = score r\<rparr>))
       \<and> length (take 50000 extractedText) = min (length extractedText) 50000"
    using e r unfolding sent_def by (auto simp: min_def)
qed

theorem handler_stores_truncated_text_witness:
  "req_method sampleRequest \<noteq> ''OPTIONS''
   \<and> download longBackend ''cv.pdf'' = Inr [1, 2, 3]
   \<and> extractTextFromPDF (getDocument longBackend) [1, 2, 3] = Inr longItem
   \<and> length longItem = 60000
   \<and> (\<exists>r answer.
         calculateKeywordMatch longItem [] = Inr r
       \<and> handler longBackend sampleRequest =
           (answer, Some (''a1'', \<lparr>cv_extracted_text = replicate 50000 (CHR ''a''),
                                  matched_keywords = matchedKeywords r,
                                  keyword_match_score = score r\<rparr>)))
   \<and> handler sampleBackend sampleRequest =
       (\<lparr>status = 200, body = SuccessBody 12 20 [''go'', ''developer'']\<rparr>,
        Some (''a1'', \<lparr>cv_extracted_text = ''Go developer'',
                      matched_keywords = [''go'', ''developer''],
                      keyword_match_score = 20\<rparr>))
   \<and> (\<exists>extractedText r.
         extractTextFromPDF (getDocument sampleBackend) [1, 2, 3] = Inr extractedText
       \<and> calculateKeywordMatch extractedText [] = Inr r
       \<and> ''Go developer'' = take (min (length extractedText) 50000) extractedText
       \<and> [''go'', ''developer''] = matchedKeywords r \<and> 20 = score r)"
proof -
  define b where "b = \<lparr>applicantId = Some ''a1'', cvFilePath = Some ''cv.pdf'',
      customKeywords = None\<rparr>"
  have q: "req_method sampleRequest \<noteq> ''OPTIONS''" "json sampleRequest = Inr b"
    "applicantId b = Some ''a1''" "''a1'' \<noteq> []" "cvFilePath b = Some ''cv.pdf''"
    "''cv.pdf'' \<noteq> []" "customKeywords b = None"
    by (simp_all add: sampleRequest_def b_def)
  have d: "download longBackend ''cv.pdf'' = Inr [1, 2, 3]"
    by (simp add: longBackend_def sampleDownload_def)
  have g: "getDocument longBackend = longDocument"
    by (simp add: longBackend_def)
  note T = handler_stores_truncated_text [of longBackend sampleRequest _ _ _ b "''a1''"
      "''cv.pdf''" "[1, 2, 3]"]
  from T q d obtain extractedText r answer where
    e: "extractTextFromPDF (getDocument longBackend) [1, 2, 3] = Inr extractedText"
    and r: "calculateKeywordMatch extractedText
      (case customKeywords b of None \<Rightarrow> [] | Some ks \<Rightarrow> ks) = Inr r"
    and s: "handler longBackend sampleRequest =
      (answer, Some (''a1'', \<lparr>cv_extracted_text = take 50000 extractedText,
        matched_keywords = matchedKeywords r, keyword_match_score = score r\<rparr>))"
    by blast
  from e have x: "extractedText = longItem"
    by (simp add: g long_extract)
  have long: "\<exists>r answer.
         calculateKeywordMatch longItem [] = Inr r
       \<and> handler longBackend sampleRequest =
           (answer, Some (''a1'', \<lparr>cv_extracted_text = replicate 50000 (CHR ''a''),
                                  matched_keywords = matchedKeywords r,
                                  keyword_match_score = score r\<rparr>))"
    using r s q(7) unfolding x take_longItem by auto
  have h: "handler sampleBackend sampleRequest =
     (\<lparr>status = 200, body = SuccessBody 12 20 [''go'', ''developer'']\<rparr>,
      Some (''a1'', \<lparr>cv_extracted_text = ''Go developer'',
                    matched_keywords = [''go'', ''developer''],
                    keyword_match_score = 20\<rparr>))"
    by (simp add: handler_def sampleBackend_def sampleRequest_def sampleDownload_def
        sampleUpdate_def sample_extract sample_eval)
  note S = handler_stores_truncated_text [THEN conjunct1, rule_format, OF h]
  have short: "\<exists>extractedText r.
         extractTextFromPDF (getDocument sampleBackend) [1, 2, 3] = Inr extractedText
       \<and> calculateKeywordMatch extractedText [] = Inr r
       \<and> ''Go developer'' = take (min (length extractedText) 50000) extractedText
       \<and> [''go'', ''developer''] = matchedKeywords r \<and> 20 = score r"
    using S by (auto simp: sampleBackend_def sampleRequest_def sampleDownload_def)
  show ?thesis
    using q(1) d long h short length_longItem long_extract g by simp
qed

end
